theory Spec2Isabelle
  imports Main "HOL-Library.Multiset" "HOL-Library.Sublist"
begin

section \<open>Python strings\<close>

text \<open>
  A Python \<^verbatim>\<open>str\<close> is a sequence of Unicode code points, while a HOL \<^typ>\<open>char\<close> is a
  byte. The scraper strips Unicode white space and compares titles with a placeholder
  made of CJK characters, so a string is modelled as the list of its code points.
  \<open>py\<close> embeds an ASCII literal.
\<close>

type_synonym pystr = "nat list"

definition py :: "string \<Rightarrow> pystr" where
  "py s = map of_char s"

text \<open>
  The code points for which \<^verbatim>\<open>str.isspace\<close> holds; \<^verbatim>\<open>str.strip()\<close> and the regular
  expression class \<^verbatim>\<open>\s\<close> use the same set.
\<close>

definition isspace :: "nat \<Rightarrow> bool" where
  "isspace c \<longleftrightarrow>
     (9 \<le> c \<and> c \<le> 13) \<or> (28 \<le> c \<and> c \<le> 32) \<or> c = 133 \<or> c = 160 \<or> c = 5760 \<or>
     (8192 \<le> c \<and> c \<le> 8202) \<or> c = 8232 \<or> c = 8233 \<or> c = 8239 \<or> c = 8287 \<or>
     c = 12288"

definition strip :: "pystr \<Rightarrow> pystr" where
  "strip s = rev (dropWhile isspace (rev (dropWhile isspace s)))"

text \<open>\<^verbatim>\<open>str(n)\<close> for an integer: decimal digits, with a minus sign when negative.\<close>

fun str_nat :: "nat \<Rightarrow> pystr" where
  "str_nat n = (if n < 10 then [48 + n] else str_nat (n div 10) @ [48 + n mod 10])"

declare str_nat.simps [simp del]

definition str_int :: "int \<Rightarrow> pystr" where
  "str_int i = (if i < 0 then 45 # str_nat (nat (- i)) else str_nat (nat i))"

section \<open>The empty-article filter\<close>

text \<open>
  The f-string of the source: the code points U+6587 and U+7AE0 (article), a space, and
  the identifier in decimal. It is the title synthesised when the page has no title element.
\<close>

definition title_placeholder :: "int \<Rightarrow> pystr" where
  "title_placeholder article_id = [25991, 31456, 32] @ str_int article_id"

definition is_empty_article :: "pystr \<Rightarrow> int \<Rightarrow> bool" where
  "is_empty_article title article_id \<longleftrightarrow>
     title = title_placeholder article_id \<or> title = [] \<or> strip title = []"

section \<open>Regular expressions and string replacement\<close>

text \<open>
  \<^verbatim>\<open>str.replace(old, new)\<close>: every non-overlapping occurrence of \<open>old\<close>, from the
  left. For an empty \<open>old\<close> Python inserts \<open>new\<close> before every character and at the
  end.
\<close>

fun replace_from :: "pystr \<Rightarrow> pystr \<Rightarrow> pystr \<Rightarrow> pystr" where
  "replace_from [] old new = []"
| "replace_from (c # cs) old new =
     (if prefix old (c # cs) then new @ replace_from (drop (length old - 1) cs) old new
      else c # replace_from cs old new)"

definition py_replace :: "pystr \<Rightarrow> pystr \<Rightarrow> pystr \<Rightarrow> pystr" where
  "py_replace s old new =
     (if old = [] then new @ concat (map (\<lambda>c. c # new) s) else replace_from s old new)"

text \<open>
  \<^verbatim>\<open>re.sub(pattern, repl, s)\<close> with a callable \<open>repl\<close>. The pattern is given by its
  matcher at the start of a string: the length of the match and its groups. The scan
  goes from the left; after a match it continues behind the match, otherwise the
  character is copied. The callable may have effects, so a state is threaded through the
  calls in match order. Every pattern of the scraper matches at least four characters,
  so the special treatment of empty matches is not modelled.
\<close>

fun re_sub ::
  "(pystr \<Rightarrow> (nat \<times> 'g) option) \<Rightarrow> (pystr \<Rightarrow> 'g \<Rightarrow> 's \<Rightarrow> pystr \<times> 's) \<Rightarrow> pystr \<Rightarrow> 's \<Rightarrow> pystr \<times> 's"
where
  "re_sub m f [] st = ([], st)"
| "re_sub m f (c # cs) st =
     (case m (c # cs) of
        None \<Rightarrow> (case re_sub m f cs st of (out, st1) \<Rightarrow> (c # out, st1))
      | Some (n, g) \<Rightarrow>
          (case f (take n (c # cs)) g st of
             (r, st1) \<Rightarrow>
               (case re_sub m f (drop (n - 1) cs) st1 of (out, st2) \<Rightarrow> (r @ out, st2))))"

text \<open>\<^verbatim>\<open><img[^>]+>\<close> at the start of \<open>s\<close>: code point 62 is \<^verbatim>\<open>>\<close>.\<close>

definition match_img :: "pystr \<Rightarrow> (nat \<times> unit) option" where
  "match_img s =
     (if prefix (py ''<img'') s then
        (let body = takeWhile (\<lambda>c. c \<noteq> 62) (drop 4 s);
             rest = dropWhile (\<lambda>c. c \<noteq> 62) (drop 4 s)
         in if body \<noteq> [] \<and> rest \<noteq> [] then Some (4 + length body + 1, ()) else None)
      else None)"

text \<open>
  \<^verbatim>\<open>src=["\']([^"\']+)["\']\<close>: code points 34 and 39 are the two quote characters.
  \<open>match_src\<close> is the match at the start of \<open>s\<close> and yields group 1; \<open>search_src\<close> is
  \<^verbatim>\<open>re.search\<close>, the leftmost match.
\<close>

definition is_quote :: "nat \<Rightarrow> bool" where
  "is_quote c \<longleftrightarrow> c = 34 \<or> c = 39"

definition match_src :: "pystr \<Rightarrow> pystr option" where
  "match_src s =
     (if prefix (py ''src='') s then
        (case drop 4 s of
           [] \<Rightarrow> None
         | q # t \<Rightarrow>
             if is_quote q then
               (let v = takeWhile (\<lambda>c. \<not> is_quote c) t;
                    r = dropWhile (\<lambda>c. \<not> is_quote c) t
                in if v \<noteq> [] \<and> r \<noteq> [] then Some v else None)
             else None)
      else None)"

fun search_src :: "pystr \<Rightarrow> pystr option" where
  "search_src [] = None"
| "search_src (c # cs) =
     (case match_src (c # cs) of Some v \<Rightarrow> Some v | None \<Rightarrow> search_src cs)"

text \<open>
  \<^verbatim>\<open>style="([^"]*?)display:\s*none;?([^"]*?)"\<close>. \<open>match_display_none\<close> is
  \<^verbatim>\<open>display:\s*none;?\<close> at the start of a string and yields what follows it
  (code point 59 is the semicolon); \<open>find_display_none\<close> finds the shortest group 1 in
  front of it, inside the attribute value; \<open>match_style_hidden\<close> is the whole pattern at
  the start of \<open>s\<close>, with groups 1 and 2.
\<close>

definition match_display_none :: "pystr \<Rightarrow> pystr option" where
  "match_display_none s =
     (if prefix (py ''display:'') s then
        (let t = dropWhile isspace (drop 8 s)
         in if prefix (py ''none'') t then
              (case drop 4 t of
                 [] \<Rightarrow> Some []
               | c # r \<Rightarrow> Some (if c = 59 then r else c # r))
            else None)
      else None)"

fun find_display_none :: "pystr \<Rightarrow> (pystr \<times> pystr) option" where
  "find_display_none [] = None"
| "find_display_none (c # cs) =
     (case match_display_none (c # cs) of
        Some r \<Rightarrow> Some ([], r)
      | None \<Rightarrow>
          (case find_display_none cs of
             None \<Rightarrow> None
           | Some (g1, g2) \<Rightarrow> Some (c # g1, g2)))"

definition match_style_hidden :: "pystr \<Rightarrow> (nat \<times> pystr \<times> pystr) option" where
  "match_style_hidden s =
     (if prefix (py ''style='' @ [34]) s then
        (let v = takeWhile (\<lambda>c. c \<noteq> 34) (drop 7 s)
         in if 7 + length v < length s then
              (case find_display_none v of
                 None \<Rightarrow> None
               | Some (g1, g2) \<Rightarrow> Some (7 + length v + 1, g1, g2))
            else None)
      else None)"

text \<open>\<^verbatim>\<open>\s*style=""\<close> at the start of \<open>s\<close>.\<close>

definition match_empty_style :: "pystr \<Rightarrow> (nat \<times> unit) option" where
  "match_empty_style s =
     (let t = dropWhile isspace s
      in if prefix (py ''style='' @ [34, 34]) t then Some (length s - length t + 8, ())
         else None)"

text \<open>
  The two substitutions the modern path applies to the body markup: the first removes
  the \<^verbatim>\<open>display: none\<close> declaration from a style attribute (and the attribute when it
  becomes empty), the second removes empty style attributes.
\<close>

definition unhide_repl :: "pystr \<Rightarrow> pystr \<times> pystr \<Rightarrow> unit \<Rightarrow> pystr \<times> unit" where
  "unhide_repl m g st =
     (py_replace (py ''style='' @ [34] @ fst g @ snd g @ [34]) (py ''style='' @ [34, 34]) [], st)"

definition strip_hidden_styles :: "pystr \<Rightarrow> pystr" where
  "strip_hidden_styles content_html =
     (let h1 = fst (re_sub match_style_hidden unhide_repl content_html ());
          h2 = fst (re_sub match_empty_style (\<lambda>m g st. ([], st)) h1 ())
      in h2)"

section \<open>The environment of the scraper\<close>

text \<open>
  A Python exception is represented by its message \<^verbatim>\<open>str(e)\<close>; a call that may raise
  returns \<open>exn + 'a\<close>.
\<close>

datatype exn = Exn (message: pystr)

text \<open>
  A row of the table \<^verbatim>\<open>articles\<close> created by \<^verbatim>\<open>init_db.py\<close>, without its primary
  key: \<^verbatim>\<open>title\<close> and \<^verbatim>\<open>url\<close> are \<^verbatim>\<open>NOT NULL\<close>, the other text columns may be
  \<^verbatim>\<open>NULL\<close>, \<^verbatim>\<open>url\<close> is \<^verbatim>\<open>UNIQUE\<close>, and \<^verbatim>\<open>created_at\<close> defaults to the time of
  the insertion. The table maps the primary key \<^verbatim>\<open>id\<close> to its row.
\<close>

record row =
  row_title :: pystr
  row_author :: "pystr option"
  row_url :: pystr
  row_category :: "pystr option"
  row_content_html :: "pystr option"
  row_created_at :: nat

type_synonym articles = "int \<rightharpoonup> row"

text \<open>
  What the database does at one call: it works, \<^verbatim>\<open>sqlite3.connect\<close> raises, or the
  statement (\<^verbatim>\<open>execute\<close> or \<^verbatim>\<open>commit\<close>) raises, for instance because the table is
  missing or the file is locked.
\<close>

datatype db_fault = NoFault | ConnectRaises exn | ExecuteRaises exn

text \<open>
  The answer of \<^verbatim>\<open>requests.get\<close>: it raises (time-out, connection error, invalid
  URL) or returns a response with a status code and a body.
\<close>

datatype http_result = HttpRaises exn | HttpResponse int "nat list"

text \<open>
  The document a rendering session shows to the selector queries of the scraper:
  for each query the text (\<^verbatim>\<open>inner_text()\<close>) or markup (\<^verbatim>\<open>inner_html()\<close>) of the
  first matching element, or \<open>None\<close> when \<^verbatim>\<open>query_selector\<close> finds no element.
  \<open>detail_content\<close> is the query \<^verbatim>\<open>.detail_content, #markdown-body\<close>.
\<close>

record page =
  detail_title :: "pystr option"
  username :: "pystr option"
  cates_span :: "pystr option"
  ne_viewer_body :: "pystr option"
  detail_content :: "pystr option"

text \<open>
  The two branches of \<^verbatim>\<open>scrape_single_article\<close>: the legacy one navigates with a
  time-out of 30000 ms and waits; the modern one navigates with 60000 ms, scrolls to the
  end of the page and reveals hidden elements before it queries.
\<close>

datatype schema_variant = Legacy | Modern

text \<open>
  Library functions whose results the scraper only passes on:
  \<^verbatim>\<open>hashlib.md5(s.encode()).hexdigest()\<close> and the extension \<^verbatim>\<open>os.path.splitext(p)[-1]\<close>.
\<close>

record library =
  md5_hexdigest :: "pystr \<Rightarrow> pystr"
  splitext_ext :: "pystr \<Rightarrow> pystr"

text \<open>
  What becomes of \<^verbatim>\<open>open(local_path, 'wb')\<close> and \<^verbatim>\<open>f.write\<close>: the file is written;
  \<^verbatim>\<open>open\<close> raises (a file name that is too long, a directory that is not writable) and
  there is no file; or \<^verbatim>\<open>write\<close> raises (a full disk) and the file stays with part of
  the content.
\<close>

datatype write_result = Written | OpenRaises exn | WriteRaises exn "nat list"

text \<open>
  What the outside world answers during one run.
  \<^item> \<open>launch i\<close>: what the start of the rendering agent for identifier \<open>i\<close> raises, if
    anything (\<^verbatim>\<open>sync_playwright\<close>, \<^verbatim>\<open>chromium.launch\<close>, \<^verbatim>\<open>new_page\<close>, before the
    branch on the identifier);
  \<^item> \<open>render v i\<close>: the rest of the session for identifier \<open>i\<close> on branch \<open>v\<close>, from
    \<^verbatim>\<open>page.goto\<close> to \<^verbatim>\<open>browser.close\<close> (navigation, scripts, queries, close): it
    either raises or shows a page;
  \<^item> \<open>http_get n url\<close>: the answer to the GET of \<open>url\<close> issued after \<open>n\<close> earlier
    requests;
  \<^item> \<open>file_write name content\<close>: what becomes of the write of a cache file;
  \<^item> \<open>probe_fault i\<close>, \<open>save_fault i\<close>: the database at the existence probe and at the
    write for identifier \<open>i\<close>; \<open>save_time i\<close>: the time of that write;
  \<^item> \<open>completion_order\<close>: the order in which \<^verbatim>\<open>as_completed\<close> yields the submitted
    tasks.
\<close>

record env =
  launch :: "int \<Rightarrow> exn option"
  render :: "schema_variant \<Rightarrow> int \<Rightarrow> exn + page"
  http_get :: "nat \<Rightarrow> pystr \<Rightarrow> http_result"
  file_write :: "pystr \<Rightarrow> nat list \<Rightarrow> write_result"
  probe_fault :: "int \<Rightarrow> db_fault"
  save_fault :: "int \<Rightarrow> db_fault"
  save_time :: "int \<Rightarrow> nat"
  completion_order :: "int list \<Rightarrow> int list"

text \<open>
  The state the scraper reads and changes: the table, the image cache directory (file
  name to content), the GET requests issued, and the calls of \<^verbatim>\<open>page.goto\<close> (URL and
  time-out), oldest first.
\<close>

record world =
  db :: articles
  cache :: "pystr \<rightharpoonup> nat list"
  requests :: "pystr list"
  navigations :: "(pystr \<times> nat) list"

section \<open>The store\<close>

definition article_exists :: "db_fault \<Rightarrow> articles \<Rightarrow> int \<Rightarrow> exn + bool" where
  "article_exists fault tbl article_id =
     (case fault of
        ConnectRaises e \<Rightarrow> Inl e
      | ExecuteRaises e \<Rightarrow> Inl e
      | NoFault \<Rightarrow> Inr (tbl article_id \<noteq> None))"

text \<open>
  The dictionary \<^verbatim>\<open>scrape_single_article\<close> returns on success, without its
  \<^verbatim>\<open>status\<close> key (see \<open>outcome\<close> below); the field \<open>art_x\<close> is the key \<^verbatim>\<open>x\<close>.
\<close>

record article_data =
  art_id :: int
  art_title :: pystr
  art_author :: pystr
  art_url :: pystr
  art_category :: pystr
  art_content_html :: pystr

text \<open>
  \<^verbatim>\<open>INSERT OR REPLACE\<close>: SQLite deletes every row that conflicts with the new one on
  the primary key or on the unique \<^verbatim>\<open>url\<close>, then inserts the new row; \<^verbatim>\<open>created_at\<close>
  is not among the inserted columns and takes its default, the current time.
\<close>

definition insert_or_replace :: "nat \<Rightarrow> article_data \<Rightarrow> articles \<Rightarrow> articles" where
  "insert_or_replace now a tbl =
     (\<lambda>k. if k = art_id a then
             Some \<lparr>row_title = art_title a, row_author = Some (art_author a),
                   row_url = art_url a, row_category = Some (art_category a),
                   row_content_html = Some (art_content_html a), row_created_at = now\<rparr>
           else (case tbl k of
                   None \<Rightarrow> None
                 | Some r \<Rightarrow> if row_url r = art_url a then None else Some r))"

text \<open>
  \<^verbatim>\<open>save_article\<close>: the connection is opened before the \<^verbatim>\<open>try\<close>, so a failure to
  connect propagates; a failure of the statement is caught and gives \<^verbatim>\<open>False\<close>.
\<close>

definition save_article :: "db_fault \<Rightarrow> nat \<Rightarrow> article_data \<Rightarrow> articles \<Rightarrow> exn + (bool \<times> articles)" where
  "save_article fault now a tbl =
     (case fault of
        ConnectRaises e \<Rightarrow> Inl e
      | ExecuteRaises e \<Rightarrow> Inr (False, tbl)
      | NoFault \<Rightarrow> Inr (True, insert_or_replace now a tbl))"

section \<open>Image localisation\<close>

definition local_filename :: "library \<Rightarrow> pystr \<Rightarrow> pystr" where
  "local_filename lib img_url =
     (let filename = md5_hexdigest lib img_url;
          e = splitext_ext lib (takeWhile (\<lambda>c. c \<noteq> 63) img_url);
          ext = (if e = [] then py ''.png'' else e)
      in filename @ ext)"

definition local_url :: "library \<Rightarrow> pystr \<Rightarrow> pystr" where
  "local_url lib img_url = py ''/static/images/'' @ local_filename lib img_url"

text \<open>
  \<^verbatim>\<open>download_image\<close>: \<open>None\<close> is Python's \<^verbatim>\<open>None\<close>. Every exception is caught inside;
  a request is issued only when the cache has no file of that name. After an answer
  with status 200 the file is opened and written; when that raises, the handler returns
  \<open>None\<close> as well, and what \<^verbatim>\<open>open\<close> created stays in the directory.
\<close>

definition download_image :: "library \<Rightarrow> env \<Rightarrow> pystr \<Rightarrow> world \<Rightarrow> pystr option \<times> world" where
  "download_image lib ev img_url w =
     (if cache w (local_filename lib img_url) \<noteq> None then (Some (local_url lib img_url), w)
      else
        (let w1 = w\<lparr>requests := requests w @ [img_url]\<rparr>
         in case http_get ev (length (requests w)) img_url of
              HttpRaises e \<Rightarrow> (None, w1)
            | HttpResponse status_code content \<Rightarrow>
                if status_code = 200 then
                  (case file_write ev (local_filename lib img_url) content of
                     Written \<Rightarrow>
                       (Some (local_url lib img_url),
                        w1\<lparr>cache := (cache w1)(local_filename lib img_url \<mapsto> content)\<rparr>)
                   | OpenRaises e \<Rightarrow> (None, w1)
                   | WriteRaises e part \<Rightarrow>
                       (None, w1\<lparr>cache := (cache w1)(local_filename lib img_url \<mapsto> part)\<rparr>))
                else (None, w1)))"

definition replace_img :: "library \<Rightarrow> env \<Rightarrow> pystr \<Rightarrow> unit \<Rightarrow> world \<Rightarrow> pystr \<times> world" where
  "replace_img lib ev img_tag g w =
     (case search_src img_tag of
        None \<Rightarrow> (img_tag, w)
      | Some original_src \<Rightarrow>
          if prefix (py ''http'') original_src then
            (case download_image lib ev original_src w of
               (None, w1) \<Rightarrow> (img_tag, w1)
             | (Some local_path, w1) \<Rightarrow> (py_replace img_tag original_src local_path, w1))
          else (img_tag, w))"

definition process_images_in_html :: "library \<Rightarrow> env \<Rightarrow> pystr \<Rightarrow> world \<Rightarrow> pystr \<times> world" where
  "process_images_in_html lib ev html_content w =
     re_sub match_img (replace_img lib ev) html_content w"

section \<open>One task\<close>

definition ARTICLE_VERSION_THRESHOLD :: int where
  "ARTICLE_VERSION_THRESHOLD = 16567"

text \<open>
  The fallbacks: U+672A U+77E5 U+4F5C U+8005 is the author sentinel (unknown author),
  and the body placeholder is a paragraph holding U+65E0 U+5185 U+5BB9 (no content).
\<close>

definition unknown_author :: pystr where
  "unknown_author = [26410, 30693, 20316, 32773]"

definition no_content :: pystr where
  "no_content = py ''<p>'' @ [26080, 20869, 23481] @ py ''</p>''"

text \<open>The four fields of the legacy branch: title, author, category, body markup.\<close>

definition extract_legacy :: "int \<Rightarrow> page \<Rightarrow> pystr \<times> pystr \<times> pystr \<times> pystr" where
  "extract_legacy article_id p =
     (let t = (case detail_title p of Some x \<Rightarrow> strip x | None \<Rightarrow> title_placeholder article_id);
          a = (case username p of Some x \<Rightarrow> strip x | None \<Rightarrow> unknown_author);
          c = (case cates_span p of Some x \<Rightarrow> strip x | None \<Rightarrow> []);
          h = (case detail_content p of Some x \<Rightarrow> x | None \<Rightarrow> no_content)
      in (t, a, c, h))"

text \<open>
  The modern branch queries \<^verbatim>\<open>.ne-viewer-body\<close> first and the legacy selectors next,
  then cleans the style attributes of whatever markup it has.
\<close>

definition extract_modern :: "int \<Rightarrow> page \<Rightarrow> pystr \<times> pystr \<times> pystr \<times> pystr" where
  "extract_modern article_id p =
     (let t = (case detail_title p of Some x \<Rightarrow> strip x | None \<Rightarrow> title_placeholder article_id);
          a = (case username p of Some x \<Rightarrow> strip x | None \<Rightarrow> unknown_author);
          c = (case cates_span p of Some x \<Rightarrow> strip x | None \<Rightarrow> []);
          content_elem = (case ne_viewer_body p of Some x \<Rightarrow> Some x | None \<Rightarrow> detail_content p);
          h = (case content_elem of Some x \<Rightarrow> x | None \<Rightarrow> no_content)
      in (t, a, c, strip_hidden_styles h))"

text \<open>
  Each branch starts with its \<^verbatim>\<open>page.goto\<close>, so the call is on record whatever the rest
  of the session does.
\<close>

definition legacy_path ::
  "env \<Rightarrow> int \<Rightarrow> pystr \<Rightarrow> world \<Rightarrow> (exn + pystr \<times> pystr \<times> pystr \<times> pystr) \<times> world" where
  "legacy_path ev article_id u w =
     (map_sum (\<lambda>e. e) (extract_legacy article_id) (render ev Legacy article_id),
      w\<lparr>navigations := navigations w @ [(u, 30000)]\<rparr>)"

definition modern_path ::
  "env \<Rightarrow> int \<Rightarrow> pystr \<Rightarrow> world \<Rightarrow> (exn + pystr \<times> pystr \<times> pystr \<times> pystr) \<times> world" where
  "modern_path ev article_id u w =
     (map_sum (\<lambda>e. e) (extract_modern article_id) (render ev Modern article_id),
      w\<lparr>navigations := navigations w @ [(u, 60000)]\<rparr>)"

text \<open>The branch on the identifier.\<close>

definition select_path ::
  "env \<Rightarrow> int \<Rightarrow> pystr \<Rightarrow> world \<Rightarrow> (exn + pystr \<times> pystr \<times> pystr \<times> pystr) \<times> world" where
  "select_path ev article_id u w =
     (if article_id \<le> ARTICLE_VERSION_THRESHOLD then legacy_path ev article_id u w
      else modern_path ev article_id u w)"

text \<open>
  The whole session of a task: the rendering agent is started before the branch; when
  that raises, no page is asked for.
\<close>

definition fetch_fields ::
  "env \<Rightarrow> int \<Rightarrow> pystr \<Rightarrow> world \<Rightarrow> (exn + pystr \<times> pystr \<times> pystr \<times> pystr) \<times> world" where
  "fetch_fields ev article_id u w =
     (case launch ev article_id of
        Some e \<Rightarrow> (Inl e, w)
      | None \<Rightarrow> select_path ev article_id u w)"

text \<open>
  The dictionary a task returns, by its \<^verbatim>\<open>status\<close>: \<^verbatim>\<open>exists\<close>, \<^verbatim>\<open>skip\<close>,
  \<^verbatim>\<open>error\<close> (with \<^verbatim>\<open>str(e)\<close>) or \<^verbatim>\<open>success\<close> (with the article).
\<close>

datatype outcome = Exists int | Skip int | Error int pystr | Success article_data

definition article_url :: "int \<Rightarrow> pystr" where
  "article_url article_id = py ''https://xz.aliyun.com/news/'' @ str_int article_id"

text \<open>
  \<^verbatim>\<open>scrape_single_article\<close>. The existence probe stands before the \<^verbatim>\<open>try\<close>: when it
  raises, the task raises (\<open>Inl\<close>). Everything behind it is inside the \<^verbatim>\<open>try\<close>, whose
  handler returns the \<^verbatim>\<open>error\<close> dictionary.
\<close>

definition scrape_single_article ::
  "library \<Rightarrow> env \<Rightarrow> int \<Rightarrow> world \<Rightarrow> (exn + outcome) \<times> world" where
  "scrape_single_article lib ev article_id w =
     (case article_exists (probe_fault ev article_id) (db w) article_id of
        Inl e \<Rightarrow> (Inl e, w)
      | Inr True \<Rightarrow> (Inr (Exists article_id), w)
      | Inr False \<Rightarrow>
          (case fetch_fields ev article_id (article_url article_id) w of
             (Inl e, w1) \<Rightarrow> (Inr (Error article_id (message e)), w1)
           | (Inr (t, a, c, h), w1) \<Rightarrow>
               if is_empty_article t article_id then (Inr (Skip article_id), w1)
               else
                 (case process_images_in_html lib ev h w1 of
                    (h', w2) \<Rightarrow>
                      (Inr (Success \<lparr>art_id = article_id, art_title = t, art_author = a,
                                      art_url = article_url article_id, art_category = c,
                                      art_content_html = h'\<rparr>), w2))))"

section \<open>The orchestrator\<close>

record counters =
  success_count :: nat
  skip_count :: nat
  fail_count :: nat
  exists_count :: nat

text \<open>
  The body of the loop over \<^verbatim>\<open>as_completed\<close>: \<^verbatim>\<open>future.result()\<close> re-raises what
  the task raised, and the handler of the loop counts that as a failure; so it does
  when \<^verbatim>\<open>save_article\<close> raises or returns \<^verbatim>\<open>False\<close>.
\<close>

definition handle_result :: "env \<Rightarrow> int \<Rightarrow> exn + outcome \<Rightarrow> counters \<times> world \<Rightarrow> counters \<times> world" where
  "handle_result ev article_id res cw =
     (case cw of (c, w) \<Rightarrow>
        (case res of
           Inl e \<Rightarrow> (c\<lparr>fail_count := fail_count c + 1\<rparr>, w)
         | Inr (Exists i) \<Rightarrow> (c\<lparr>exists_count := exists_count c + 1\<rparr>, w)
         | Inr (Skip i) \<Rightarrow> (c\<lparr>skip_count := skip_count c + 1\<rparr>, w)
         | Inr (Error i msg) \<Rightarrow> (c\<lparr>fail_count := fail_count c + 1\<rparr>, w)
         | Inr (Success a) \<Rightarrow>
             (case save_article (save_fault ev article_id) (save_time ev article_id) a (db w) of
                Inl e \<Rightarrow> (c\<lparr>fail_count := fail_count c + 1\<rparr>, w)
              | Inr (True, tbl) \<Rightarrow> (c\<lparr>success_count := success_count c + 1\<rparr>, w\<lparr>db := tbl\<rparr>)
              | Inr (False, tbl) \<Rightarrow> (c\<lparr>fail_count := fail_count c + 1\<rparr>, w\<lparr>db := tbl\<rparr>))))"

text \<open>
  The tasks in the order in which their results are collected. Each task is run as one
  step, just before its result is handled: a task reads only its own row of the table,
  and the image cache is only ever extended.
\<close>

fun run_tasks :: "library \<Rightarrow> env \<Rightarrow> int list \<Rightarrow> counters \<times> world \<Rightarrow> counters \<times> world" where
  "run_tasks lib ev [] cw = cw"
| "run_tasks lib ev (i # rest) cw =
     (case scrape_single_article lib ev i (snd cw) of
        (res, w1) \<Rightarrow> run_tasks lib ev rest (handle_result ev i res (fst cw, w1)))"

text \<open>
  \<^verbatim>\<open>main\<close>: \<^verbatim>\<open>ProcessPoolExecutor\<close> refuses a worker count below one; the tasks are
  those of \<^verbatim>\<open>range(start_id, end_id + 1)\<close>.
\<close>

definition zero_counters :: counters where
  "zero_counters = \<lparr>success_count = 0, skip_count = 0, fail_count = 0, exists_count = 0\<rparr>"

definition submitted :: "int \<Rightarrow> int \<Rightarrow> int list" where
  "submitted start_id end_id = [start_id..end_id]"

definition main :: "library \<Rightarrow> env \<Rightarrow> int \<Rightarrow> int \<Rightarrow> int \<Rightarrow> world \<Rightarrow> exn + counters \<times> world" where
  "main lib ev start_id end_id max_workers w =
     (if max_workers \<le> 0 then Inl (Exn (py ''max_workers must be greater than 0''))
      else Inr (run_tasks lib ev (completion_order ev (submitted start_id end_id))
                  (zero_counters, w)))"

section \<open>Matches and the text between them\<close>

text \<open>
  The way \<open>re_sub\<close> cuts a string: single characters that no match covers (marked
  \<open>None\<close>) and matches (marked with their groups), in order. \<open>rewrite_segments\<close> applies
  the callable to the matches and copies the rest.
\<close>

fun segments :: "(pystr \<Rightarrow> (nat \<times> 'g) option) \<Rightarrow> pystr \<Rightarrow> (pystr \<times> 'g option) list" where
  "segments m [] = []"
| "segments m (c # cs) =
     (case m (c # cs) of
        None \<Rightarrow> ([c], None) # segments m cs
      | Some (n, g) \<Rightarrow> (take n (c # cs), Some g) # segments m (drop (n - 1) cs))"

fun rewrite_segments ::
  "(pystr \<Rightarrow> 'g \<Rightarrow> 's \<Rightarrow> pystr \<times> 's) \<Rightarrow> (pystr \<times> 'g option) list \<Rightarrow> 's \<Rightarrow> pystr \<times> 's" where
  "rewrite_segments f [] st = ([], st)"
| "rewrite_segments f ((x, None) # r) st =
     (case rewrite_segments f r st of (out, st1) \<Rightarrow> (x @ out, st1))"
| "rewrite_segments f ((x, Some g) # r) st =
     (case f x g st of
        (y, st1) \<Rightarrow> (case rewrite_segments f r st1 of (out, st2) \<Rightarrow> (y @ out, st2)))"

text \<open>
  The absolute image URLs of a markup string, in order of occurrence: the \<^verbatim>\<open>src\<close>
  values, starting with \<^verbatim>\<open>http\<close>, that \<open>replace_img\<close> hands to \<open>download_image\<close>.
\<close>

definition tag_src :: "pystr \<times> unit option \<Rightarrow> pystr option" where
  "tag_src seg =
     (case snd seg of
        None \<Rightarrow> None
      | Some g \<Rightarrow>
          (case search_src (fst seg) of
             None \<Rightarrow> None
           | Some original_src \<Rightarrow>
               if prefix (py ''http'') original_src then Some original_src else None))"

definition img_urls :: "pystr \<Rightarrow> pystr list" where
  "img_urls html_content = List.map_filter tag_src (segments match_img html_content)"

section \<open>Notions for the statements\<close>

text \<open>The components of the field tuple of a path.\<close>

definition field_title :: "pystr \<times> pystr \<times> pystr \<times> pystr \<Rightarrow> pystr" where
  "field_title f = fst f"

definition field_author :: "pystr \<times> pystr \<times> pystr \<times> pystr \<Rightarrow> pystr" where
  "field_author f = fst (snd f)"

definition field_category :: "pystr \<times> pystr \<times> pystr \<times> pystr \<Rightarrow> pystr" where
  "field_category f = fst (snd (snd f))"

definition field_body :: "pystr \<times> pystr \<times> pystr \<times> pystr \<Rightarrow> pystr" where
  "field_body f = snd (snd (snd f))"

text \<open>The row \<^verbatim>\<open>INSERT OR REPLACE\<close> writes for an article at a given time.\<close>

definition row_of :: "nat \<Rightarrow> article_data \<Rightarrow> row" where
  "row_of now a =
     \<lparr>row_title = art_title a, row_author = Some (art_author a), row_url = art_url a,
      row_category = Some (art_category a), row_content_html = Some (art_content_html a),
      row_created_at = now\<rparr>"


text \<open>
  A table whose rows carry the URL of their own identifier, as every row the scraper
  writes does.
\<close>

definition own_urls :: "articles \<Rightarrow> bool" where
  "own_urls tbl \<longleftrightarrow> (\<forall>k r. tbl k = Some r \<longrightarrow> row_url r = article_url k)"

text \<open>
  The title the session of a task extracts, if the session gets that far, and whether a
  task that finds its identifier absent from the store ends by writing it.
\<close>

definition session_title :: "env \<Rightarrow> int \<Rightarrow> pystr option" where
  "session_title ev i =
     (case launch ev i of
        Some e \<Rightarrow> None
      | None \<Rightarrow>
          (case render ev (if i \<le> ARTICLE_VERSION_THRESHOLD then Legacy else Modern) i of
             Inl e \<Rightarrow> None
           | Inr p \<Rightarrow>
               Some (case detail_title p of Some x \<Rightarrow> strip x | None \<Rightarrow> title_placeholder i)))"

definition will_store :: "env \<Rightarrow> int \<Rightarrow> bool" where
  "will_store ev i \<longleftrightarrow>
     probe_fault ev i = NoFault \<and> save_fault ev i = NoFault \<and>
     (case session_title ev i of None \<Rightarrow> False | Some t \<Rightarrow> \<not> is_empty_article t i)"

text \<open>Two runs of \<open>main\<close> over the same range, the second on the state the first left.\<close>

definition run_twice ::
  "library \<Rightarrow> env \<Rightarrow> env \<Rightarrow> int \<Rightarrow> int \<Rightarrow> int \<Rightarrow> world \<Rightarrow> exn + counters \<times> counters \<times> world" where
  "run_twice lib ev1 ev2 start_id end_id max_workers w =
     (case main lib ev1 start_id end_id max_workers w of
        Inl e \<Rightarrow> Inl e
      | Inr (c1, w1) \<Rightarrow>
          (case main lib ev2 start_id end_id max_workers w1 of
             Inl e \<Rightarrow> Inl e
           | Inr (c2, w2) \<Rightarrow> Inr (c1, c2, w2)))"

text \<open>
  The states the scan goes through: the state in which each segment is reached. Only a
  tag with an absolute URL changes the state, by its download.
\<close>

fun scan_states :: "library \<Rightarrow> env \<Rightarrow> (pystr \<times> unit option) list \<Rightarrow> world \<Rightarrow> world list" where
  "scan_states lib ev [] w = []"
| "scan_states lib ev (seg # r) w =
     w # scan_states lib ev r
           (case tag_src seg of
              None \<Rightarrow> w
            | Some original_src \<Rightarrow> snd (download_image lib ev original_src w))"

text \<open>
  \<open>tag_outcome\<close> relates a matched tag, in the state in which the scan reaches it, to
  what stands in its place afterwards: the tag itself, unless its first quoted \<^verbatim>\<open>src\<close>
  value starts with \<^verbatim>\<open>http\<close> and the download of it, in that state, yields a local
  path; then it is the tag with every occurrence of that value replaced by the path.
  \<open>segment_outcome\<close> extends this to the characters between the tags, which stay.
\<close>

definition tag_outcome :: "library \<Rightarrow> env \<Rightarrow> world \<Rightarrow> pystr \<Rightarrow> pystr \<Rightarrow> bool" where
  "tag_outcome lib ev w x y \<longleftrightarrow>
     (case search_src x of
        None \<Rightarrow> y = x
      | Some original_src \<Rightarrow>
          if prefix (py ''http'') original_src then
            (case fst (download_image lib ev original_src w) of
               None \<Rightarrow> y = x
             | Some local_path \<Rightarrow>
                 local_path = local_url lib original_src \<and>
                 y = py_replace x original_src local_path)
          else y = x)"

definition segment_outcome ::
  "library \<Rightarrow> env \<Rightarrow> (pystr \<times> unit option) \<times> world \<Rightarrow> pystr \<Rightarrow> bool" where
  "segment_outcome lib ev sw y \<longleftrightarrow>
     (case snd (fst sw) of
        None \<Rightarrow> y = fst (fst sw)
      | Some g \<Rightarrow> tag_outcome lib ev (snd sw) (fst (fst sw)) y)"


section \<open>A sample run\<close>

text \<open>
  The scenario of the specification: the range 10 to 12, where 10 is already stored,
  11 is a legacy page whose selectors resolve, and 12 has no title element. Any other
  identifier times out. The digest is replaced by a stand-in.
\<close>

definition lib0 :: library where
  "lib0 = \<lparr>md5_hexdigest = (\<lambda>img_url. py ''h'' @ str_nat (length img_url)),
            splitext_ext = (\<lambda>p. [])\<rparr>"

definition page_full :: page where
  \<open>page_full = \<lparr>detail_title = Some (py '' A title ''), username = Some (py ''bob''),
     cates_span = None, ne_viewer_body = None,
     detail_content = Some (py ''<p>hi</p><img src="http://a/b.png">'')\<rparr>\<close>

definition page_blank :: page where
  "page_blank = \<lparr>detail_title = None, username = None, cates_span = None,
     ne_viewer_body = None, detail_content = None\<rparr>"

definition env0 :: env where
  "env0 = \<lparr>launch = (\<lambda>i. None),
            render = (\<lambda>v i. if i = 11 then Inr page_full else if i = 12 then Inr page_blank
                          else Inl (Exn (py ''Timeout 30000ms exceeded''))),
            http_get = (\<lambda>n img_url. HttpResponse 200 [137, 80]),
            file_write = (\<lambda>name content. Written),
            probe_fault = (\<lambda>i. NoFault), save_fault = (\<lambda>i. NoFault),
            save_time = (\<lambda>i. 7), completion_order = rev\<rparr>"

definition row10 :: row where
  "row10 = \<lparr>row_title = py ''old'', row_author = None, row_url = article_url 10,
     row_category = None, row_content_html = None, row_created_at = 1\<rparr>"

definition w0 :: world where
  "w0 = \<lparr>db = [10 \<mapsto> row10], cache = Map.empty, requests = [], navigations = []\<rparr>"

definition article11 :: article_data where
  "article11 = \<lparr>art_id = 11, art_title = py ''A title'', art_author = py ''bob'',
     art_url = article_url 11, art_category = [], art_content_html = py ''<p>hi</p>''\<rparr>"

text \<open>Markup with a repeated image URL, and a tag that repeats its URL in another attribute.\<close>

definition markup_repeated :: pystr where
  \<open>markup_repeated =
     py ''<img src="http://a/b.png"><img src="http://a/cc.png">x<img src="http://a/b.png">''\<close>

definition markup_lazy :: pystr where
  \<open>markup_lazy = py ''<img src="http://a/b.png" data-original="http://a/b.png">''\<close>

text \<open>
  Further answers of the outside world: a modern page with hidden elements, a database
  whose table is missing at the probe and which is locked at the write, a rendering
  agent that does not start, a cache directory that refuses the file, and a server that
  answers 404.
\<close>

definition page_modern :: page where
  \<open>page_modern = \<lparr>detail_title = Some (py ''New''), username = None, cates_span = Some (py '' web ''),
     ne_viewer_body = Some (py ''<p style="display: none;">x</p><div  style="color:red;display:none">y</div>''),
     detail_content = None\<rparr>\<close>

definition env_locked :: env where
  "env_locked = env0\<lparr>probe_fault := \<lambda>i. ExecuteRaises (Exn (py ''no such table: articles'')),
                      save_fault := \<lambda>i. ExecuteRaises (Exn (py ''database is locked''))\<rparr>"

definition env_crashed :: env where
  "env_crashed = env0\<lparr>launch := \<lambda>i. Some (Exn (py ''browser executable not found''))\<rparr>"


definition env_404 :: env where
  "env_404 = env0\<lparr>http_get := \<lambda>n img_url. HttpResponse 404 []\<rparr>"

section \<open>Facts about strings\<close>

lemma strip_empty_iff: "strip s = [] \<longleftrightarrow> (\<forall>c \<in> set s. isspace c)"
proof
  assume "strip s = []"
  then have all: "\<forall>c \<in> set (dropWhile isspace s). isspace c"
    by (simp add: strip_def dropWhile_eq_Nil_conv)
  have "dropWhile isspace s = []"
  proof (rule ccontr)
    assume ne: "dropWhile isspace s \<noteq> []"
    then have "\<not> isspace (hd (dropWhile isspace s))"
      by (rule hd_dropWhile)
    moreover have "hd (dropWhile isspace s) \<in> set (dropWhile isspace s)"
      using ne by simp
    ultimately show False using all by blast
  qed
  then show "\<forall>c \<in> set s. isspace c"
    by (simp add: dropWhile_eq_Nil_conv)
next
  assume "\<forall>c \<in> set s. isspace c"
  then show "strip s = []"
    by (auto simp: strip_def dest: set_dropWhileD)
qed

section \<open>Facts about one task\<close>

lemma fetch_fields_db: "db (snd (fetch_fields ev i u w)) = db w"
  by (simp add: fetch_fields_def select_path_def legacy_path_def modern_path_def
      split: option.splits)

lemma scrape_skip:
  assumes "article_exists (probe_fault ev i) (db w) i = Inr False"
      and "fetch_fields ev i (article_url i) w = (Inr (t, a, c, h), w1)"
      and "is_empty_article t i"
  shows "scrape_single_article lib ev i w = (Inr (Skip i), w1)"
  using assms by (simp add: scrape_single_article_def)

section \<open>The empty-article filter is exact, and an empty article is skipped\<close>

text \<open>
  Claim C5. \<open>is_empty_article\<close> holds exactly when the title is empty, consists of white
  space only, or is the placeholder synthesised for that identifier. When it holds for
  the title a task has extracted, the task ends with \<open>Skip\<close>, the table is as before, and
  the orchestrator counts one skip without writing.
\<close>

theorem empty_article_is_skipped:
  "(is_empty_article t i \<longleftrightarrow> t = [] \<or> (\<forall>c \<in> set t. isspace c) \<or> t = title_placeholder i) \<and>
   (article_exists (probe_fault ev i) (db w) i = Inr False \<longrightarrow>
    fst (fetch_fields ev i (article_url i) w) = Inr (t, a, c, h) \<longrightarrow>
    is_empty_article t i \<longrightarrow>
      fst (scrape_single_article lib ev i w) = Inr (Skip i) \<and>
      db (snd (scrape_single_article lib ev i w)) = db w \<and>
      run_tasks lib ev [i] (cnt, w) =
        (cnt\<lparr>skip_count := skip_count cnt + 1\<rparr>, snd (fetch_fields ev i (article_url i) w)))"
proof -
  have iff: "is_empty_article t i \<longleftrightarrow> t = [] \<or> (\<forall>c \<in> set t. isspace c) \<or> t = title_placeholder i"
    by (auto simp: is_empty_article_def strip_empty_iff)
  have task: "fst (scrape_single_article lib ev i w) = Inr (Skip i) \<and>
      db (snd (scrape_single_article lib ev i w)) = db w \<and>
      run_tasks lib ev [i] (cnt, w) =
        (cnt\<lparr>skip_count := skip_count cnt + 1\<rparr>, snd (fetch_fields ev i (article_url i) w))"
    if p: "article_exists (probe_fault ev i) (db w) i = Inr False"
      and f: "fst (fetch_fields ev i (article_url i) w) = Inr (t, a, c, h)"
      and e: "is_empty_article t i"
  proof -
    obtain w1 where ff: "fetch_fields ev i (article_url i) w = (Inr (t, a, c, h), w1)"
      using f by (cases "fetch_fields ev i (article_url i) w") simp
    have s: "scrape_single_article lib ev i w = (Inr (Skip i), w1)"
      by (rule scrape_skip [OF p ff e])
    have d: "db w1 = db w"
      using fetch_fields_db [of ev i "article_url i" w] ff by simp
    show ?thesis
      using s d ff by (simp add: handle_result_def)
  qed
  show ?thesis
    using iff task by blast
qed

theorem empty_article_is_skipped_witness:
  "is_empty_article (title_placeholder 12) 12 \<and>
   fst (scrape_single_article lib0 env0 12 w0) = Inr (Skip 12) \<and>
   db (snd (scrape_single_article lib0 env0 12 w0)) = db w0"
proof -
  have p: "article_exists (probe_fault env0 12) (db w0) 12 = Inr False"
    by (simp add: article_exists_def env0_def w0_def)
  have f: "fst (fetch_fields env0 12 (article_url 12) w0) =
             Inr (title_placeholder 12, unknown_author, [], no_content)"
    by (simp add: fetch_fields_def select_path_def legacy_path_def extract_legacy_def env0_def page_blank_def
        ARTICLE_VERSION_THRESHOLD_def)
  have e: "is_empty_article (title_placeholder 12) 12"
    by (simp add: is_empty_article_def)
  show ?thesis
    using empty_article_is_skipped [of "title_placeholder 12" 12 env0 w0 unknown_author "[]" no_content lib0]
      p f e by blast
qed

section \<open>Facts about the two paths\<close>

lemma legacy_modern_differ: "legacy_path ev i u w \<noteq> modern_path ev i u w"
proof
  assume "legacy_path ev i u w = modern_path ev i u w"
  then have "navigations (snd (legacy_path ev i u w)) = navigations (snd (modern_path ev i u w))"
    by simp
  then show False
    by (simp add: legacy_path_def modern_path_def)
qed

section \<open>Schema selection\<close>

text \<open>
  Claim C8. The branch a task takes depends on the identifier and the threshold 16567
  alone: every identifier up to the threshold, the threshold included, takes the legacy
  path and every larger one the modern path, whatever the environment and the state;
  the two paths are never the same computation.
\<close>

theorem schema_selected_by_threshold:
  "ARTICLE_VERSION_THRESHOLD = 16567 \<and>
   (article_id \<le> ARTICLE_VERSION_THRESHOLD \<longrightarrow>
      select_path ev article_id u w = legacy_path ev article_id u w) \<and>
   (ARTICLE_VERSION_THRESHOLD < article_id \<longrightarrow>
      select_path ev article_id u w = modern_path ev article_id u w) \<and>
   select_path ev ARTICLE_VERSION_THRESHOLD u w = legacy_path ev ARTICLE_VERSION_THRESHOLD u w \<and>
   legacy_path ev article_id u w \<noteq> modern_path ev article_id u w \<and>
   (launch ev article_id = None \<longrightarrow>
      fetch_fields ev article_id u w = select_path ev article_id u w) \<and>
   (\<forall>e. launch ev article_id = Some e \<longrightarrow> fetch_fields ev article_id u w = (Inl e, w))"
  using legacy_modern_differ [of ev article_id u w]
  by (simp add: fetch_fields_def select_path_def ARTICLE_VERSION_THRESHOLD_def)

theorem schema_selected_by_threshold_witness:
  "(16567 :: int) \<le> ARTICLE_VERSION_THRESHOLD \<and>
   select_path env0 16567 [] w0 = legacy_path env0 16567 [] w0 \<and>
   ARTICLE_VERSION_THRESHOLD < (16568 :: int) \<and>
   select_path env0 16568 [] w0 = modern_path env0 16568 [] w0 \<and>
   launch env0 16567 = None \<and>
   fetch_fields env0 16567 [] w0 = legacy_path env0 16567 [] w0 \<and>
   launch env_crashed 16567 = Some (Exn (py ''browser executable not found'')) \<and>
   fetch_fields env_crashed 16567 [] w0 = (Inl (Exn (py ''browser executable not found'')), w0)"
proof -
  have l: "launch env0 16567 = None"
    "launch env_crashed 16567 = Some (Exn (py ''browser executable not found''))"
    by (simp_all add: env0_def env_crashed_def)
  have t: "(16567 :: int) \<le> ARTICLE_VERSION_THRESHOLD" "ARTICLE_VERSION_THRESHOLD < (16568 :: int)"
    by (simp_all add: ARTICLE_VERSION_THRESHOLD_def)
  have a: "select_path env0 16567 [] w0 = legacy_path env0 16567 [] w0"
    "fetch_fields env0 16567 [] w0 = select_path env0 16567 [] w0"
    using schema_selected_by_threshold [of 16567 env0 "[]" w0] t(1) l(1) by blast+
  have b: "select_path env0 16568 [] w0 = modern_path env0 16568 [] w0"
    using schema_selected_by_threshold [of 16568 env0 "[]" w0] t(2) by blast
  have c: "fetch_fields env_crashed 16567 [] w0 = (Inl (Exn (py ''browser executable not found'')), w0)"
    using schema_selected_by_threshold [of 16567 env_crashed "[]" w0] l(2) by blast
  have a2: "fetch_fields env0 16567 [] w0 = legacy_path env0 16567 [] w0"
    using a by simp
  show ?thesis
    using l t a(1) a2 b c by blast
qed

lemma strip_hidden_styles_no_content: "strip_hidden_styles no_content = no_content"
  by (simp add: strip_hidden_styles_def no_content_def py_def match_style_hidden_def
      match_empty_style_def isspace_def)

section \<open>Field extraction and its fallbacks\<close>

text \<open>
  Claim C9. On every page, whichever elements are present or absent, both paths yield a
  field tuple: a missing title gives the placeholder that embeds the identifier, a
  missing author the unknown-author sentinel, a missing category the empty string, a
  missing body container the placeholder markup; the modern path takes the primary
  container, else the legacy one, else the placeholder. A present element gives its
  text, stripped, or its markup.
\<close>

theorem extraction_fallbacks:
  "title_placeholder i = [25991, 31456, 32] @ str_int i \<and>
   (detail_title p = None \<longrightarrow>
      field_title (extract_legacy i p) = title_placeholder i \<and>
      field_title (extract_modern i p) = title_placeholder i) \<and>
   (username p = None \<longrightarrow>
      field_author (extract_legacy i p) = unknown_author \<and>
      field_author (extract_modern i p) = unknown_author) \<and>
   (cates_span p = None \<longrightarrow>
      field_category (extract_legacy i p) = [] \<and> field_category (extract_modern i p) = []) \<and>
   (detail_content p = None \<longrightarrow> field_body (extract_legacy i p) = no_content) \<and>
   (ne_viewer_body p = None \<and> detail_content p = None \<longrightarrow>
      field_body (extract_modern i p) = no_content) \<and>
   (\<forall>x. ne_viewer_body p = Some x \<longrightarrow> field_body (extract_modern i p) = strip_hidden_styles x) \<and>
   (\<forall>y. ne_viewer_body p = None \<and> detail_content p = Some y \<longrightarrow>
      field_body (extract_modern i p) = strip_hidden_styles y) \<and>
   (\<forall>x. detail_title p = Some x \<longrightarrow>
      field_title (extract_legacy i p) = strip x \<and> field_title (extract_modern i p) = strip x) \<and>
   (\<forall>x. username p = Some x \<longrightarrow>
      field_author (extract_legacy i p) = strip x \<and> field_author (extract_modern i p) = strip x) \<and>
   (\<forall>x. cates_span p = Some x \<longrightarrow>
      field_category (extract_legacy i p) = strip x \<and>
      field_category (extract_modern i p) = strip x) \<and>
   (\<forall>y. detail_content p = Some y \<longrightarrow> field_body (extract_legacy i p) = y) \<and>
   (i \<le> ARTICLE_VERSION_THRESHOLD \<and> render ev Legacy i = Inr p \<longrightarrow>
      fst (select_path ev i u w) = Inr (extract_legacy i p)) \<and>
   (ARTICLE_VERSION_THRESHOLD < i \<and> render ev Modern i = Inr p \<longrightarrow>
      fst (select_path ev i u w) = Inr (extract_modern i p)) \<and>
   (launch ev i = None \<and> i \<le> ARTICLE_VERSION_THRESHOLD \<and> render ev Legacy i = Inr p \<longrightarrow>
      fst (fetch_fields ev i u w) = Inr (extract_legacy i p)) \<and>
   (launch ev i = None \<and> ARTICLE_VERSION_THRESHOLD < i \<and> render ev Modern i = Inr p \<longrightarrow>
      fst (fetch_fields ev i u w) = Inr (extract_modern i p))"
  by (simp add: extract_legacy_def extract_modern_def field_title_def field_author_def
      field_category_def field_body_def title_placeholder_def strip_hidden_styles_no_content
      fetch_fields_def select_path_def legacy_path_def modern_path_def)

theorem extraction_fallbacks_witness:
  \<open>detail_title page_blank = None \<and> username page_blank = None \<and> cates_span page_blank = None \<and>
   ne_viewer_body page_blank = None \<and> detail_content page_blank = None \<and>
   extract_legacy 12 page_blank = ([25991, 31456, 32, 49, 50], unknown_author, [], no_content) \<and>
   extract_modern 20000 page_blank =
     ([25991, 31456, 32, 50, 48, 48, 48, 48], unknown_author, [], no_content) \<and>
   detail_title page_full = Some (py '' A title '') \<and>
   field_title (extract_legacy 11 page_full) = py ''A title'' \<and>
   field_body (extract_legacy 11 page_full) = py ''<p>hi</p><img src="http://a/b.png">'' \<and>
   field_category (extract_modern 20000 page_modern) = py ''web'' \<and>
   field_body (extract_modern 20000 page_modern) = py ''<p >x</p><div  style="color:red;">y</div>'' \<and>
   fst (fetch_fields env0 12 [] w0) = Inr (extract_legacy 12 page_blank)\<close>
proof -
  have n: "detail_title page_blank = None" "username page_blank = None"
    "cates_span page_blank = None" "ne_viewer_body page_blank = None"
    "detail_content page_blank = None"
    by (simp_all add: page_blank_def)
  have s: "detail_title page_full = Some (py '' A title '')"
    \<open>detail_content page_full = Some (py ''<p>hi</p><img src="http://a/b.png">'')\<close>
    by (simp_all add: page_full_def)
  have m: "cates_span page_modern = Some (py '' web '')"
    \<open>ne_viewer_body page_modern =
       Some (py ''<p style="display: none;">x</p><div  style="color:red;display:none">y</div>'')\<close>
    by (simp_all add: page_modern_def)
  have r: "launch env0 12 = None \<and> 12 \<le> ARTICLE_VERSION_THRESHOLD \<and>
           render env0 Legacy 12 = Inr page_blank"
    by (simp add: ARTICLE_VERSION_THRESHOLD_def env0_def)
  have d12: "str_int 12 = [49, 50]" and d20000: "str_int 20000 = [50, 48, 48, 48, 48]"
    by (simp_all add: str_int_def str_nat.simps)
  have st: "strip (py '' A title '') = py ''A title''" "strip (py '' web '') = py ''web''"
    by (simp_all add: strip_def py_def isspace_def)
  have sh: \<open>strip_hidden_styles
              (py ''<p style="display: none;">x</p><div  style="color:red;display:none">y</div>'') =
            py ''<p >x</p><div  style="color:red;">y</div>''\<close>
    by (simp add: strip_hidden_styles_def py_def match_style_hidden_def match_empty_style_def
        isspace_def match_display_none_def unhide_repl_def py_replace_def)
  have l: "extract_legacy 12 page_blank =
      (field_title (extract_legacy 12 page_blank), field_author (extract_legacy 12 page_blank),
       field_category (extract_legacy 12 page_blank), field_body (extract_legacy 12 page_blank))"
    and l2: "extract_modern 20000 page_blank =
      (field_title (extract_modern 20000 page_blank), field_author (extract_modern 20000 page_blank),
       field_category (extract_modern 20000 page_blank), field_body (extract_modern 20000 page_blank))"
    by (simp_all add: field_title_def field_author_def field_category_def field_body_def)
  show ?thesis
    using extraction_fallbacks [of 12 page_blank env0 "[]" w0]
      extraction_fallbacks [of 20000 page_blank env0 "[]" w0]
      extraction_fallbacks [of 11 page_full env0 "[]" w0]
      extraction_fallbacks [of 20000 page_modern env0 "[]" w0]
      n s m r d12 d20000 st sh l l2
    by simp
qed


section \<open>Facts about failures\<close>

lemma scrape_classified:
  assumes "article_exists (probe_fault ev i) (db w) i = Inr b"
  shows "\<exists>oc. fst (scrape_single_article lib ev i w) = Inr oc"
  using assms
  by (cases b) (auto simp: scrape_single_article_def split: prod.splits sum.splits)

lemma scrape_render_error:
  assumes "article_exists (probe_fault ev i) (db w) i = Inr False"
      and "fst (fetch_fields ev i (article_url i) w) = Inl e"
  shows "fst (scrape_single_article lib ev i w) = Inr (Error i (message e))"
  using assms
  by (auto simp: scrape_single_article_def split: prod.splits sum.splits)

lemma scrape_probe_raises:
  assumes "article_exists (probe_fault ev i) (db w) i = Inl e"
  shows "scrape_single_article lib ev i w = (Inl e, w)"
  using assms by (simp add: scrape_single_article_def)

lemma handle_save_failure:
  assumes "save_fault ev i \<noteq> NoFault"
  shows "handle_result ev i (Inr (Success a)) (c, w) = (c\<lparr>fail_count := fail_count c + 1\<rparr>, w)"
  using assms by (cases "save_fault ev i") (simp_all add: handle_result_def save_article_def)

section \<open>Failures of one task\<close>

text \<open>
  Claim C1, as stated, fails: the existence probe stands before the \<^verbatim>\<open>try\<close> of
  \<^verbatim>\<open>scrape_single_article\<close>, so when the probe raises (here: the table is missing) the
  task raises instead of returning an outcome.
\<close>

theorem scrape_raises_counterexample:
  "fst (scrape_single_article lib0 env_locked 11 w0) = Inl (Exn (py ''no such table: articles''))"
  by (simp add: scrape_single_article_def article_exists_def env_locked_def)

text \<open>
  Claim C1, amended. A task whose existence probe answers returns a classified outcome;
  whatever the rendering session raises becomes \<open>Error\<close> with the message, for that
  identifier. When the probe raises, the task raises, the state is untouched, and the
  handler of the orchestrator's loop counts one failure and goes on with the remaining
  tasks. A failed write is counted as one failure and leaves the table as it was. With
  a positive worker count the orchestrator always returns its counters.
\<close>

theorem task_failures_isolated:
  "(\<forall>b. article_exists (probe_fault ev i) (db w) i = Inr b \<longrightarrow>
      (\<exists>oc. fst (scrape_single_article lib ev i w) = Inr oc)) \<and>
   (\<forall>e. article_exists (probe_fault ev i) (db w) i = Inr False \<and>
        fst (fetch_fields ev i (article_url i) w) = Inl e \<longrightarrow>
      fst (scrape_single_article lib ev i w) = Inr (Error i (message e))) \<and>
   (\<forall>e. article_exists (probe_fault ev i) (db w) i = Inl e \<longrightarrow>
      scrape_single_article lib ev i w = (Inl e, w) \<and>
      run_tasks lib ev (i # rest) (c, w) =
        run_tasks lib ev rest (c\<lparr>fail_count := fail_count c + 1\<rparr>, w)) \<and>
   (\<forall>a. save_fault ev i \<noteq> NoFault \<longrightarrow>
      handle_result ev i (Inr (Success a)) (c, w) = (c\<lparr>fail_count := fail_count c + 1\<rparr>, w)) \<and>
   (0 < n \<longrightarrow> (\<exists>r. main lib ev start_id end_id n w = Inr r))"
proof -
  have "run_tasks lib ev (i # rest) (c, w) =
        run_tasks lib ev rest (c\<lparr>fail_count := fail_count c + 1\<rparr>, w)"
    if "article_exists (probe_fault ev i) (db w) i = Inl e" for e
    using scrape_probe_raises [OF that, of lib] by (simp add: handle_result_def)
  then show ?thesis
    using scrape_classified [of ev i w _ lib] scrape_render_error [of ev i w _ lib]
      scrape_probe_raises [of ev i w _ lib] handle_save_failure [of ev i _ c w]
    by (simp add: main_def)
qed

theorem task_failures_isolated_witness:
  "article_exists (probe_fault env0 13) (db w0) 13 = Inr False \<and>
   fst (fetch_fields env0 13 (article_url 13) w0) = Inl (Exn (py ''Timeout 30000ms exceeded'')) \<and>
   fst (scrape_single_article lib0 env0 13 w0) = Inr (Error 13 (py ''Timeout 30000ms exceeded'')) \<and>
   article_exists (probe_fault env_locked 11) (db w0) 11 = Inl (Exn (py ''no such table: articles'')) \<and>
   run_tasks lib0 env_locked [11] (zero_counters, w0) =
     (zero_counters\<lparr>fail_count := fail_count zero_counters + 1\<rparr>, w0) \<and>
   save_fault env_locked 11 \<noteq> NoFault \<and>
   handle_result env_locked 11 (Inr (Success article11)) (zero_counters, w0) =
     (zero_counters\<lparr>fail_count := fail_count zero_counters + 1\<rparr>, w0) \<and>
   (0 :: int) < 3 \<and> (\<exists>r. main lib0 env0 10 12 3 w0 = Inr r)"
proof -
  have p: "article_exists (probe_fault env0 13) (db w0) 13 = Inr False"
    by (simp add: article_exists_def env0_def w0_def)
  have f: "fst (fetch_fields env0 13 (article_url 13) w0) = Inl (Exn (py ''Timeout 30000ms exceeded''))"
    by (simp add: fetch_fields_def select_path_def legacy_path_def env0_def ARTICLE_VERSION_THRESHOLD_def)
  have q: "article_exists (probe_fault env_locked 11) (db w0) 11 = Inl (Exn (py ''no such table: articles''))"
    by (simp add: article_exists_def env_locked_def)
  have s: "save_fault env_locked 11 \<noteq> NoFault"
    by (simp add: env_locked_def)
  have a: "fst (scrape_single_article lib0 env0 13 w0) = Inr (Error 13 (py ''Timeout 30000ms exceeded''))"
    "\<exists>r. main lib0 env0 10 12 3 w0 = Inr r"
    using task_failures_isolated [of env0 13 w0 lib0 "[]" zero_counters 3 10 12] p f
    by simp_all
  have b: "run_tasks lib0 env_locked (11 # []) (zero_counters, w0) =
             run_tasks lib0 env_locked [] (zero_counters\<lparr>fail_count := fail_count zero_counters + 1\<rparr>, w0)"
    "handle_result env_locked 11 (Inr (Success article11)) (zero_counters, w0) =
       (zero_counters\<lparr>fail_count := fail_count zero_counters + 1\<rparr>, w0)"
    using task_failures_isolated [of env_locked 11 w0 lib0 "[]" zero_counters 3 10 12] q s
    by blast+
  have c: "run_tasks lib0 env_locked [11] (zero_counters, w0) =
     (zero_counters\<lparr>fail_count := fail_count zero_counters + 1\<rparr>, w0)"
    unfolding b(1) by simp
  have n: "(0 :: int) < 3"
    by simp
  show ?thesis
    using p f q s a b(2) c n by blast
qed

lemma insert_or_replace_twice:
  "insert_or_replace t2 a (insert_or_replace t1 a tbl) = insert_or_replace t2 a tbl"
  by (rule ext) (simp add: insert_or_replace_def split: option.splits)

lemma insert_or_replace_created_at:
  "insert_or_replace t2 a tbl = (insert_or_replace t1 a tbl)(art_id a \<mapsto> (row_of t1 a)\<lparr>row_created_at := t2\<rparr>)"
  by (rule ext) (simp add: insert_or_replace_def row_of_def)

section \<open>The record writer\<close>

text \<open>
  Claim C4, as stated, fails: \<^verbatim>\<open>sqlite3.connect\<close> is called before the \<^verbatim>\<open>try\<close> of
  \<^verbatim>\<open>save_article\<close>, so a failure to open the database is raised to the caller.
\<close>

theorem save_article_raises_counterexample:
  "save_article (ConnectRaises (Exn (py ''unable to open database file''))) 7 article11 (db w0) =
     Inl (Exn (py ''unable to open database file''))"
  by (simp add: save_article_def)

text \<open>
  Claim C4, amended. A successful write returns \<open>True\<close> and stores exactly the row of
  the article, whatever row the identifier had before; rows with another identifier and
  another URL are kept. A failure of the statement returns \<open>False\<close> and changes
  nothing; only a failure to connect is raised. Writing the same article twice gives
  the state of the first write with \<^verbatim>\<open>created_at\<close> set to the time of the second.
\<close>

theorem save_article_replaces:
  "save_article NoFault now a tbl = Inr (True, insert_or_replace now a tbl) \<and>
   insert_or_replace now a tbl (art_id a) = Some (row_of now a) \<and>
   (\<forall>k r. k \<noteq> art_id a \<and> tbl k = Some r \<and> row_url r \<noteq> art_url a \<longrightarrow>
      insert_or_replace now a tbl k = Some r) \<and>
   (\<forall>k. k \<noteq> art_id a \<and> tbl k = None \<longrightarrow> insert_or_replace now a tbl k = None) \<and>
   (\<forall>e. save_article (ExecuteRaises e) now a tbl = Inr (False, tbl)) \<and>
   (\<forall>e. save_article (ConnectRaises e) now a tbl = Inl e) \<and>
   (\<forall>t1 t2. insert_or_replace t2 a (insert_or_replace t1 a tbl) =
      (insert_or_replace t1 a tbl)(art_id a \<mapsto> (row_of t1 a)\<lparr>row_created_at := t2\<rparr>))"
proof -
  have "insert_or_replace t2 a (insert_or_replace t1 a tbl) =
      (insert_or_replace t1 a tbl)(art_id a \<mapsto> (row_of t1 a)\<lparr>row_created_at := t2\<rparr>)" for t1 t2
    using insert_or_replace_twice [of t2 a t1 tbl] insert_or_replace_created_at [of t2 a tbl t1]
    by simp
  then show ?thesis
    by (simp add: save_article_def insert_or_replace_def row_of_def)
qed

theorem save_article_replaces_witness:
  "(10 :: int) \<noteq> art_id article11 \<and> db w0 10 = Some row10 \<and> row_url row10 \<noteq> art_url article11 \<and>
   insert_or_replace 7 article11 (db w0) 10 = Some row10 \<and>
   (12 :: int) \<noteq> art_id article11 \<and> db w0 12 = None \<and>
   insert_or_replace 7 article11 (db w0) 12 = None \<and>
   insert_or_replace 7 article11 (db w0) 11 = Some (row_of 7 article11) \<and>
   insert_or_replace 9 article11 (insert_or_replace 7 article11 (db w0)) 11 =
     Some ((row_of 7 article11)\<lparr>row_created_at := 9\<rparr>) \<and>
   save_article (ExecuteRaises (Exn (py ''database is locked''))) 7 article11 (db w0) =
     Inr (False, db w0)"
proof -
  have h: "(10 :: int) \<noteq> art_id article11" "db w0 10 = Some row10" "art_id article11 = 11"
    "(12 :: int) \<noteq> art_id article11" "db w0 12 = None"
    by (simp_all add: article11_def w0_def)
  have u: "row_url row10 \<noteq> art_url article11"
    by (simp add: row10_def article11_def article_url_def str_int_def str_nat.simps)
  show ?thesis
    using save_article_replaces [of 7 article11 "db w0"] h u
    by simp
qed


section \<open>Facts about the orchestrator\<close>





section \<open>The counters account for every task\<close>




lemma exists_task:
  assumes "db w i \<noteq> None" and "probe_fault ev i = NoFault"
  shows "scrape_single_article lib ev i w = (Inr (Exists i), w)"
  using assms by (simp add: scrape_single_article_def article_exists_def)

lemma run_tasks_all_exist:
  assumes "\<forall>i \<in> set xs. db w i \<noteq> None \<and> probe_fault ev i = NoFault"
  shows "run_tasks lib ev xs (c, w) = (c\<lparr>exists_count := exists_count c + length xs\<rparr>, w)"
  using assms
proof (induction xs arbitrary: c)
  case Nil
  show ?case by simp
next
  case (Cons i rest)
  have s: "scrape_single_article lib ev i w = (Inr (Exists i), w)"
    using Cons.prems by (simp add: exists_task)
  have "run_tasks lib ev (i # rest) (c, w) =
        run_tasks lib ev rest (c\<lparr>exists_count := exists_count c + 1\<rparr>, w)"
    using s by (simp add: handle_result_def)
  also have "\<dots> = (c\<lparr>exists_count := exists_count c + 1\<rparr>
                     \<lparr>exists_count := exists_count (c\<lparr>exists_count := exists_count c + 1\<rparr>) + length rest\<rparr>, w)"
    using Cons.prems by (intro Cons.IH) simp
  finally show ?case by simp
qed

section \<open>Facts about substitution\<close>

lemma re_sub_segments: "re_sub m f s st = rewrite_segments f (segments m s) st"
proof (induction m s arbitrary: st rule: segments.induct)
  case (1 m)
  show ?case by simp
next
  case (2 m c cs)
  show ?case
  proof (cases "m (c # cs)")
    case None
    then show ?thesis using 2 by simp
  next
    case (Some ng)
    obtain n g where ng: "ng = (n, g)" by (cases ng)
    show ?thesis
      using Some ng 2(2) by (simp split: prod.splits)
  qed
qed

lemma match_img_bounds:
  assumes "match_img s = Some (n, g)"
  shows "6 \<le> n \<and> n \<le> length s"
proof -
  let ?t = "drop 4 s"
  let ?body = "takeWhile (\<lambda>c. c \<noteq> 62) ?t"
  let ?rest = "dropWhile (\<lambda>c. c \<noteq> 62) ?t"
  have p: "prefix (py ''<img'') s" and b: "?body \<noteq> []" and r: "?rest \<noteq> []"
    and n: "n = 4 + length ?body + 1"
    using assms by (auto simp: match_img_def Let_def split: if_splits)
  have l4: "4 \<le> length s"
    using prefix_length_le [OF p] by (simp add: py_def)
  have "length ?t = length ?body + length ?rest"
    using takeWhile_dropWhile_id [of "\<lambda>c. c \<noteq> 62" ?t]
    by (metis length_append)
  moreover have "1 \<le> length ?rest" and "1 \<le> length ?body"
    using r b by (simp_all add: Suc_le_eq)
  ultimately show ?thesis
    using n l4 by simp
qed

lemma concat_segments_img: "concat (map fst (segments match_img s)) = s"
proof (induction "match_img :: pystr \<Rightarrow> (nat \<times> unit) option" s rule: segments.induct)
  case 1
  show ?case by simp
next
  case (2 c cs)
  show ?case
  proof (cases "match_img (c # cs)")
    case None
    then show ?thesis using 2 by simp
  next
    case (Some ng)
    obtain n g where ng: "ng = (n, g)" by (cases ng)
    have "1 \<le> n"
      using match_img_bounds [of "c # cs" n g] Some ng by simp
    then have t: "take n (c # cs) = c # take (n - 1) cs"
      by (cases n) simp_all
    show ?thesis
      using Some ng 2(2) t by simp
  qed
qed

lemma length_py_img: "length (py ''<img'') = 4"
  by (simp add: py_def)

lemma match_img_shape:
  assumes "match_img s = Some (n, g)"
  shows "\<exists>body rest. s = py ''<img'' @ body @ 62 # rest \<and> body \<noteq> [] \<and> 62 \<notin> set body \<and>
           n = 4 + length body + 1"
proof -
  let ?t = "drop 4 s"
  let ?body = "takeWhile (\<lambda>c. c \<noteq> 62) ?t"
  let ?rest = "dropWhile (\<lambda>c. c \<noteq> 62) ?t"
  have p: "prefix (py ''<img'') s" and b: "?body \<noteq> []" and r: "?rest \<noteq> []"
    and n: "n = 4 + length ?body + 1"
    using assms by (auto simp: match_img_def Let_def split: if_splits)
  have "s = py ''<img'' @ drop (length (py ''<img'')) s"
    using p by (auto simp: prefix_def)
  then have s1: "s = py ''<img'' @ ?t"
    by (simp only: length_py_img)
  have "hd ?rest = 62"
    using hd_dropWhile [OF r] by simp
  then have r2: "?rest = 62 # tl ?rest"
    using r by (cases ?rest) simp_all
  have "?t = ?body @ ?rest"
    by simp
  then have "?t = ?body @ 62 # tl ?rest"
    using r2 by simp
  then have s2: "s = py ''<img'' @ ?body @ 62 # tl ?rest"
    using s1 by simp
  have nb: "62 \<notin> set ?body"
    using set_takeWhileD [of 62 "\<lambda>c. c \<noteq> 62" ?t] by blast
  show ?thesis
    using s2 b nb n by blast
qed

lemma match_img_tag:
  assumes "body \<noteq> []" and "62 \<notin> set body"
  shows "match_img (py ''<img'' @ body @ [62]) = Some (4 + length body + 1, ())"
proof -
  have d: "drop 4 (py ''<img'' @ body @ [62]) = body @ [62]"
    using length_py_img by (metis append_eq_conv_conj)
  have t: "takeWhile (\<lambda>c. c \<noteq> 62) (body @ [62]) = body"
    using assms(2) by (simp add: takeWhile_append)
  have dw: "dropWhile (\<lambda>c. c \<noteq> 62) (body @ [62]) = [62]"
    using assms(2) by (simp add: dropWhile_append)
  have pre: "prefix (py ''<img'') (py ''<img'' @ body @ [62])"
    by simp
  show ?thesis
    unfolding match_img_def d t dw Let_def using assms(1) pre by simp
qed

lemma match_img_take:
  assumes "match_img s = Some (n, g)"
  shows "match_img (take n s) = Some (length (take n s), ())"
proof -
  obtain body rest where s: "s = py ''<img'' @ body @ 62 # rest" and b: "body \<noteq> []"
    and nb: "62 \<notin> set body" and n: "n = 4 + length body + 1"
    using match_img_shape [OF assms] by blast
  have "n = length (py ''<img'' @ body @ [62])"
    using n length_py_img by simp
  moreover have "s = (py ''<img'' @ body @ [62]) @ rest"
    using s by simp
  ultimately have "take n s = py ''<img'' @ body @ [62]"
    by (metis append_eq_conv_conj)
  then show ?thesis
    using match_img_tag [OF b nb] length_py_img by simp
qed

lemma segments_img_kinds:
  "\<forall>seg \<in> set (segments match_img s).
     (case snd seg of
        None \<Rightarrow> length (fst seg) = 1
      | Some g \<Rightarrow> match_img (fst seg) = Some (length (fst seg), ()))"
proof (induction "match_img :: pystr \<Rightarrow> (nat \<times> unit) option" s rule: segments.induct)
  case 1
  show ?case by simp
next
  case (2 c cs)
  show ?case
  proof (cases "match_img (c # cs)")
    case None
    then show ?thesis using 2 by simp
  next
    case (Some ng)
    obtain n g where ng: "ng = (n, g)" by (cases ng)
    have "match_img (take n (c # cs)) = Some (length (take n (c # cs)), ())"
      using match_img_take [of "c # cs" n g] Some ng by simp
    then show ?thesis
      using Some ng 2(2) by simp
  qed
qed

lemma download_image_result:
  "fst (download_image lib ev u w) = None \<or> fst (download_image lib ev u w) = Some (local_url lib u)"
  by (simp add: download_image_def Let_def split: http_result.splits write_result.splits)

lemma rewrite_segments_None:
  "fst (rewrite_segments f ((x, None) # r) st) = x @ fst (rewrite_segments f r st)"
  "snd (rewrite_segments f ((x, None) # r) st) = snd (rewrite_segments f r st)"
  by (cases "rewrite_segments f r st", simp)+

lemma rewrite_segments_Some:
  "fst (rewrite_segments f ((x, Some g) # r) st) =
     fst (f x g st) @ fst (rewrite_segments f r (snd (f x g st)))"
  "snd (rewrite_segments f ((x, Some g) # r) st) = snd (rewrite_segments f r (snd (f x g st)))"
  by (cases "f x g st", cases "rewrite_segments f r (snd (f x g st))", simp)+

lemmas img_eval = process_images_in_html_def py_def match_img_def replace_img_def match_src_def
  is_quote_def download_image_def local_filename_def local_url_def py_replace_def str_nat.simps
  lib0_def env0_def w0_def

lemma segments_markup_repeated:
  \<open>segments match_img markup_repeated =
     [(py ''<img src="http://a/b.png">'', Some ()), (py ''<img src="http://a/cc.png">'', Some ()),
      (py ''x'', None), (py ''<img src="http://a/b.png">'', Some ())]\<close>
  by (simp add: markup_repeated_def py_def match_img_def)


section \<open>Facts about failed and successful fetches\<close>

lemma tag_src_None: "tag_src (x, None) = None"
  by (simp add: tag_src_def)

lemma replace_img_tag_src:
  "replace_img lib ev x g w =
     (case tag_src (x, Some g) of
        None \<Rightarrow> (x, w)
      | Some u \<Rightarrow>
          (case download_image lib ev u w of
             (None, w1) \<Rightarrow> (x, w1)
           | (Some lp, w1) \<Rightarrow> (py_replace x u lp, w1)))"
  by (simp add: replace_img_def tag_src_def split: option.splits)

lemma download_image_fails:
  assumes "cache w (local_filename lib u) = None"
      and "\<forall>body. http_get ev (length (requests w)) u \<noteq> HttpResponse 200 body"
  shows "download_image lib ev u w = (None, w\<lparr>requests := requests w @ [u]\<rparr>)"
  using assms by (simp add: download_image_def Let_def split: http_result.splits)

lemma replace_img_fails:
  assumes "cache w (local_filename lib u) = None"
      and "\<forall>body. http_get ev (length (requests w)) u \<noteq> HttpResponse 200 body"
      and "search_src x = Some u"
  shows "fst (replace_img lib ev x g w) = x"
proof (cases "prefix (py ''http'') u")
  case True
  then show ?thesis
    using assms(3) download_image_fails [OF assms(1,2)] by (simp add: replace_img_def)
next
  case False
  then show ?thesis
    using assms(3) by (simp add: replace_img_def)
qed

lemma rewrite_all_fail:
  assumes "\<forall>n u body. http_get ev n u \<noteq> HttpResponse 200 body"
      and "\<forall>u \<in> set (List.map_filter tag_src segs). cache w (local_filename lib u) = None"
  shows "fst (rewrite_segments (replace_img lib ev) segs w) = concat (map fst segs) \<and>
         cache (snd (rewrite_segments (replace_img lib ev) segs w)) = cache w"
  using assms(2)
proof (induction segs arbitrary: w)
  case Nil
  show ?case by simp
next
  case (Cons seg r)
  obtain x og where seg: "seg = (x, og)" by (cases seg)
  show ?case
  proof (cases og)
    case None
    have "\<forall>u \<in> set (List.map_filter tag_src r). cache w (local_filename lib u) = None"
      using Cons.prems seg None by (simp add: map_filter_simps tag_src_None)
    then show ?thesis
      using Cons.IH [of w] seg None
      by (simp add: rewrite_segments_None del: rewrite_segments.simps)
  next
    case (Some g)
    show ?thesis
    proof (cases "tag_src (x, Some g)")
      case None
      then have f: "replace_img lib ev x g w = (x, w)"
        by (simp add: replace_img_tag_src)
      have "\<forall>u \<in> set (List.map_filter tag_src r). cache w (local_filename lib u) = None"
        using Cons.prems seg Some None by (simp add: map_filter_simps)
      then show ?thesis
        using Cons.IH [of w] seg Some f
        by (simp add: rewrite_segments_Some del: rewrite_segments.simps)
    next
      case u: (Some u)
      have c: "cache w (local_filename lib u) = None"
        and rest: "\<forall>v \<in> set (List.map_filter tag_src r). cache w (local_filename lib v) = None"
        using Cons.prems seg Some u by (simp_all add: map_filter_simps)
      have d: "download_image lib ev u w = (None, w\<lparr>requests := requests w @ [u]\<rparr>)"
        using download_image_fails [OF c] assms(1) by simp
      have f: "replace_img lib ev x g w = (x, w\<lparr>requests := requests w @ [u]\<rparr>)"
        using u d by (simp add: replace_img_tag_src)
      have "\<forall>v \<in> set (List.map_filter tag_src r).
              cache (w\<lparr>requests := requests w @ [u]\<rparr>) (local_filename lib v) = None"
        using rest by simp
      then show ?thesis
        using Cons.IH [of "w\<lparr>requests := requests w @ [u]\<rparr>"] seg Some f
        by (simp add: rewrite_segments_Some del: rewrite_segments.simps)
    qed
  qed
qed

lemma process_all_fail:
  assumes "\<forall>n u body. http_get ev n u \<noteq> HttpResponse 200 body"
      and "\<forall>u \<in> set (img_urls html_content). cache w (local_filename lib u) = None"
  shows "fst (process_images_in_html lib ev html_content w) = html_content \<and>
         cache (snd (process_images_in_html lib ev html_content w)) = cache w"
  using rewrite_all_fail [OF assms(1), of "segments match_img html_content" w lib] assms(2)
    concat_segments_img [of html_content]
  by (simp add: process_images_in_html_def re_sub_segments img_urls_def)

lemma process_continues:
  assumes "match_img html_content = Some (n, g)"
  shows "fst (process_images_in_html lib ev html_content w) =
           fst (replace_img lib ev (take n html_content) g w) @
           fst (process_images_in_html lib ev (drop n html_content)
                  (snd (replace_img lib ev (take n html_content) g w)))"
proof (cases html_content)
  case Nil
  then show ?thesis
    using assms by (simp add: match_img_def py_def)
next
  case (Cons c cs)
  have "1 \<le> n"
    using match_img_bounds [OF assms] by simp
  then have d: "drop (n - 1) cs = drop n (c # cs)"
    by (cases n) simp_all
  show ?thesis
    using assms Cons d
    by (simp add: process_images_in_html_def split: prod.splits)
qed

lemma fetch_fields_cache: "cache (snd (fetch_fields ev i u w)) = cache w"
  by (simp add: fetch_fields_def select_path_def legacy_path_def modern_path_def
      split: option.splits)

lemma scrape_success:
  assumes "article_exists (probe_fault ev i) (db w) i = Inr False"
      and "fetch_fields ev i (article_url i) w = (Inr (t, a, c, h), w1)"
      and "\<not> is_empty_article t i"
  shows "fst (scrape_single_article lib ev i w) =
           Inr (Success \<lparr>art_id = i, art_title = t, art_author = a, art_url = article_url i,
                          art_category = c,
                          art_content_html = fst (process_images_in_html lib ev h w1)\<rparr>)"
  using assms by (simp add: scrape_single_article_def split: prod.splits)







section \<open>Image localisation leaves the rest of the markup alone\<close>

text \<open>
  Claim C10, as stated, fails: the tag is rewritten with \<^verbatim>\<open>str.replace\<close>, which replaces
  every occurrence of the \<^verbatim>\<open>src\<close> value inside the tag, here also the one in another
  attribute.
\<close>

theorem lazy_attribute_counterexample:
  \<open>fst (process_images_in_html lib0 env0 markup_lazy w0) =
     py ''<img src="/static/images/h14.png" data-original="/static/images/h14.png">''\<close>
  by (simp add: markup_lazy_def img_eval)

lemma replace_img_outcome: "tag_outcome lib ev w x (fst (replace_img lib ev x g w))"
proof (cases "search_src x")
  case None
  then show ?thesis
    by (simp add: tag_outcome_def replace_img_def)
next
  case (Some u)
  show ?thesis
  proof (cases "prefix (py ''http'') u")
    case False
    then show ?thesis
      using Some by (simp add: tag_outcome_def replace_img_def)
  next
    case True
    obtain r w1 where d: "download_image lib ev u w = (r, w1)"
      by (cases "download_image lib ev u w")
    have "r = None \<or> r = Some (local_url lib u)"
      using download_image_result [of lib ev u w] d by simp
    then show ?thesis
      using Some True d by (auto simp: tag_outcome_def replace_img_def)
  qed
qed

lemma replace_img_state:
  "snd (replace_img lib ev x g w) =
     (case tag_src (x, Some g) of None \<Rightarrow> w | Some u \<Rightarrow> snd (download_image lib ev u w))"
  by (cases "download_image lib ev (the (search_src x)) w")
    (auto simp: replace_img_def tag_src_def split: option.splits)

lemma rewrite_img_outcomes:
  "\<exists>outs. fst (rewrite_segments (replace_img lib ev) segs w) = concat outs \<and>
          list_all2 (segment_outcome lib ev) (zip segs (scan_states lib ev segs w)) outs"
proof (induction segs arbitrary: w)
  case Nil
  show ?case by simp
next
  case (Cons seg r)
  obtain x og where seg: "seg = (x, og)" by (cases seg)
  show ?case
  proof (cases og)
    case None
    obtain outs where o: "fst (rewrite_segments (replace_img lib ev) r w) = concat outs"
      and l: "list_all2 (segment_outcome lib ev) (zip r (scan_states lib ev r w)) outs"
      using Cons.IH [of w] by blast
    have "fst (rewrite_segments (replace_img lib ev) (seg # r) w) = concat (x # outs)"
      using seg None o by (simp add: rewrite_segments_None del: rewrite_segments.simps)
    moreover have "list_all2 (segment_outcome lib ev)
                     (zip (seg # r) (scan_states lib ev (seg # r) w)) (x # outs)"
      using seg None l by (simp add: segment_outcome_def tag_src_None)
    ultimately show ?thesis by blast
  next
    case (Some g)
    let ?w1 = "snd (replace_img lib ev x g w)"
    obtain outs where o: "fst (rewrite_segments (replace_img lib ev) r ?w1) = concat outs"
      and l: "list_all2 (segment_outcome lib ev) (zip r (scan_states lib ev r ?w1)) outs"
      using Cons.IH [of ?w1] by blast
    have t: "tag_outcome lib ev w x (fst (replace_img lib ev x g w))"
      by (rule replace_img_outcome)
    have "fst (rewrite_segments (replace_img lib ev) (seg # r) w) =
            concat (fst (replace_img lib ev x g w) # outs)"
      using seg Some o by (simp add: rewrite_segments_Some del: rewrite_segments.simps)
    moreover have "list_all2 (segment_outcome lib ev)
                     (zip (seg # r) (scan_states lib ev (seg # r) w))
                     (fst (replace_img lib ev x g w) # outs)"
      using seg Some l t by (simp add: segment_outcome_def replace_img_state)
    ultimately show ?thesis by blast
  qed
qed

lemma length_scan_states: "length (scan_states lib ev segs w) = length segs"
  by (induction segs arbitrary: w) simp_all

lemma tag_outcome_changed:
  assumes "tag_outcome lib ev w x y" and "y \<noteq> x"
  shows "\<exists>original_src. search_src x = Some original_src \<and> prefix (py ''http'') original_src \<and>
           fst (download_image lib ev original_src w) = Some (local_url lib original_src) \<and>
           y = py_replace x original_src (local_url lib original_src)"
  using assms by (auto simp: tag_outcome_def split: option.splits if_splits)

lemma tag_outcome_kept:
  assumes "tag_outcome lib ev w x y"
      and "search_src x = None \<or>
           (\<exists>original_src. search_src x = Some original_src \<and>
              (\<not> prefix (py ''http'') original_src \<or>
               fst (download_image lib ev original_src w) = None))"
  shows "y = x"
  using assms by (auto simp: tag_outcome_def split: option.splits if_splits)

text \<open>
  Claim C10, amended. The markup is cut into the matches of the image pattern and the
  single characters between them; the characters between them are kept as they are.
  A match is kept as it is unless its first quoted \<^verbatim>\<open>src\<close> value starts with
  \<^verbatim>\<open>http\<close> and the download of that value, in the state in which the scan reaches the
  match, yields a local path; then every occurrence of that value inside the match is
  replaced by that path, and nothing else. A match without such a value, with a value
  that does not start with \<^verbatim>\<open>http\<close>, or whose download yields nothing is unchanged.
\<close>

theorem images_frame:
  "concat (map fst (segments match_img html_content)) = html_content \<and>
   (\<forall>seg \<in> set (segments match_img html_content).
      (case snd seg of
         None \<Rightarrow> length (fst seg) = 1
       | Some g \<Rightarrow> match_img (fst seg) = Some (length (fst seg), ()))) \<and>
   length (scan_states lib ev (segments match_img html_content) w) =
     length (segments match_img html_content) \<and>
   (\<exists>outs. length outs = length (segments match_img html_content) \<and>
      fst (process_images_in_html lib ev html_content w) = concat outs \<and>
      list_all2 (segment_outcome lib ev)
        (zip (segments match_img html_content)
             (scan_states lib ev (segments match_img html_content) w)) outs) \<and>
   (\<forall>w1 x y. tag_outcome lib ev w1 x y \<and> y \<noteq> x \<longrightarrow>
      (\<exists>original_src. search_src x = Some original_src \<and> prefix (py ''http'') original_src \<and>
         fst (download_image lib ev original_src w1) = Some (local_url lib original_src) \<and>
         y = py_replace x original_src (local_url lib original_src))) \<and>
   (\<forall>w1 x y. tag_outcome lib ev w1 x y \<and>
      (search_src x = None \<or>
       (\<exists>original_src. search_src x = Some original_src \<and>
          (\<not> prefix (py ''http'') original_src \<or>
           fst (download_image lib ev original_src w1) = None))) \<longrightarrow> y = x)"
proof -
  have a: "\<forall>w1 x y. tag_outcome lib ev w1 x y \<and> y \<noteq> x \<longrightarrow>
      (\<exists>original_src. search_src x = Some original_src \<and> prefix (py ''http'') original_src \<and>
         fst (download_image lib ev original_src w1) = Some (local_url lib original_src) \<and>
         y = py_replace x original_src (local_url lib original_src))"
    using tag_outcome_changed by blast
  have b: "\<forall>w1 x y. tag_outcome lib ev w1 x y \<and>
      (search_src x = None \<or>
       (\<exists>original_src. search_src x = Some original_src \<and>
          (\<not> prefix (py ''http'') original_src \<or>
           fst (download_image lib ev original_src w1) = None))) \<longrightarrow> y = x"
    using tag_outcome_kept by blast
  obtain outs where o: "fst (process_images_in_html lib ev html_content w) = concat outs"
    "list_all2 (segment_outcome lib ev)
        (zip (segments match_img html_content)
             (scan_states lib ev (segments match_img html_content) w)) outs"
    using rewrite_img_outcomes [of lib ev "segments match_img html_content" w]
    by (auto simp: process_images_in_html_def re_sub_segments)
  have l: "length (scan_states lib ev (segments match_img html_content) w) =
             length (segments match_img html_content)"
    by (rule length_scan_states)
  have "length outs = length (segments match_img html_content)"
    using list_all2_lengthD [OF o(2)] l by simp
  then have c: "\<exists>outs. length outs = length (segments match_img html_content) \<and>
      fst (process_images_in_html lib ev html_content w) = concat outs \<and>
      list_all2 (segment_outcome lib ev)
        (zip (segments match_img html_content)
             (scan_states lib ev (segments match_img html_content) w)) outs"
    using o by blast
  show ?thesis
    using concat_segments_img [of html_content] segments_img_kinds [of html_content] a b c l
    by blast
qed

theorem images_frame_witness:
  \<open>concat (map fst (segments match_img markup_repeated)) = markup_repeated \<and>
   match_img (py ''<img src="http://a/b.png">'') = Some (length (py ''<img src="http://a/b.png">''), ()) \<and>
   (\<exists>outs. fst (process_images_in_html lib0 env_404 markup_repeated w0) = concat outs \<and>
      list_all2 (segment_outcome lib0 env_404)
        (zip (segments match_img markup_repeated)
             (scan_states lib0 env_404 (segments match_img markup_repeated) w0)) outs) \<and>
   search_src (py ''<img src="http://a/b.png">'') = Some (py ''http://a/b.png'') \<and>
   fst (download_image lib0 env_404 (py ''http://a/b.png'') w0) = None \<and>
   tag_outcome lib0 env_404 w0 (py ''<img src="http://a/b.png">'') (py ''<img src="http://a/b.png">'') \<and>
   \<not> tag_outcome lib0 env_404 w0 (py ''<img src="http://a/b.png">'')
       (py ''<img src="/static/images/h14.png">'') \<and>
   fst (download_image lib0 env0 (py ''http://a/b.png'') w0) = Some (local_url lib0 (py ''http://a/b.png'')) \<and>
   tag_outcome lib0 env0 w0 (py ''<img src="http://a/b.png">'')
       (py ''<img src="/static/images/h14.png">'') \<and>
   \<not> tag_outcome lib0 env0 w0 (py ''<img src="http://a/b.png">'') (py ''<img src="http://a/b.png">'')\<close>
proof -
  let ?tag = \<open>py ''<img src="http://a/b.png">''\<close>
  let ?new = \<open>py ''<img src="/static/images/h14.png">''\<close>
  have m: \<open>(?tag, Some ()) \<in> set (segments match_img markup_repeated)\<close>
    unfolding segments_markup_repeated by simp
  have s: "search_src ?tag = Some (py ''http://a/b.png'')"
    by (simp add: py_def match_src_def is_quote_def)
  have d4: "fst (download_image lib0 env_404 (py ''http://a/b.png'') w0) = None"
    by (simp add: download_image_def env_404_def env0_def w0_def)
  have d0: "fst (download_image lib0 env0 (py ''http://a/b.png'') w0) =
              Some (local_url lib0 (py ''http://a/b.png''))"
    by (simp add: download_image_def env0_def w0_def)
  have ne: "?new \<noteq> ?tag"
    by (simp add: py_def)
  have k4: "tag_outcome lib0 env_404 w0 ?tag ?tag"
    using s d4 by (simp add: tag_outcome_def)
  have n4: "\<not> tag_outcome lib0 env_404 w0 ?tag ?new"
  proof
    assume "tag_outcome lib0 env_404 w0 ?tag ?new"
    then have "?new = ?tag"
      using images_frame [of markup_repeated lib0 env_404 w0] s d4 by blast
    then show False using ne by simp
  qed
  have r: "py_replace ?tag (py ''http://a/b.png'') (local_url lib0 (py ''http://a/b.png'')) = ?new"
    by (simp add: py_replace_def py_def local_url_def local_filename_def lib0_def str_nat.simps)
  have k0: "tag_outcome lib0 env0 w0 ?tag ?new"
    using s d0 r by (simp add: tag_outcome_def py_def)
  have n0: "\<not> tag_outcome lib0 env0 w0 ?tag ?tag"
    using s d0 r ne by (simp add: tag_outcome_def py_def)
  have f: "concat (map fst (segments match_img markup_repeated)) = markup_repeated"
    "match_img ?tag = Some (length ?tag, ())"
    "\<exists>outs. fst (process_images_in_html lib0 env_404 markup_repeated w0) = concat outs \<and>
      list_all2 (segment_outcome lib0 env_404)
        (zip (segments match_img markup_repeated)
             (scan_states lib0 env_404 (segments match_img markup_repeated) w0)) outs"
    using images_frame [of markup_repeated lib0 env_404 w0] m by fastforce+
  show ?thesis
    using f s d4 k4 n4 d0 k0 n0 by blast
qed

section \<open>A failed image fetch\<close>

text \<open>
  Claim C7. When the fetch of an image fails, by an exception or a status other than
  200, \<open>download_image\<close> returns \<open>None\<close> and the tag keeps its remote URL; when every
  fetch fails the markup comes back unchanged and the cache untouched. The scan goes on
  behind a tag whatever became of it, and the article still ends in \<open>Success\<close>, with the
  unchanged markup when all fetches fail. Image localisation has no raising branch.
\<close>

theorem image_failure_keeps_url:
  "(cache w (local_filename lib u) = None \<and>
    (\<forall>body. http_get ev (length (requests w)) u \<noteq> HttpResponse 200 body) \<longrightarrow>
      download_image lib ev u w = (None, w\<lparr>requests := requests w @ [u]\<rparr>) \<and>
      (\<forall>img_tag g. search_src img_tag = Some u \<longrightarrow> fst (replace_img lib ev img_tag g w) = img_tag)) \<and>
   ((\<forall>n v body. http_get ev n v \<noteq> HttpResponse 200 body) \<and>
    (\<forall>v \<in> set (img_urls html_content). cache w (local_filename lib v) = None) \<longrightarrow>
      fst (process_images_in_html lib ev html_content w) = html_content \<and>
      cache (snd (process_images_in_html lib ev html_content w)) = cache w) \<and>
   (\<forall>n g. match_img html_content = Some (n, g) \<longrightarrow>
      fst (process_images_in_html lib ev html_content w) =
        fst (replace_img lib ev (take n html_content) g w) @
        fst (process_images_in_html lib ev (drop n html_content)
               (snd (replace_img lib ev (take n html_content) g w)))) \<and>
   (article_exists (probe_fault ev i) (db w) i = Inr False \<and>
    fst (fetch_fields ev i (article_url i) w) = Inr (t, a, c, h) \<and> \<not> is_empty_article t i \<longrightarrow>
      (\<exists>h'. fst (scrape_single_article lib ev i w) =
         Inr (Success \<lparr>art_id = i, art_title = t, art_author = a, art_url = article_url i,
                        art_category = c, art_content_html = h'\<rparr>)) \<and>
      ((\<forall>n v body. http_get ev n v \<noteq> HttpResponse 200 body) \<and>
       (\<forall>v \<in> set (img_urls h). cache w (local_filename lib v) = None) \<longrightarrow>
         fst (scrape_single_article lib ev i w) =
           Inr (Success \<lparr>art_id = i, art_title = t, art_author = a, art_url = article_url i,
                          art_category = c, art_content_html = h\<rparr>)))"
proof -
  have one: "download_image lib ev u w = (None, w\<lparr>requests := requests w @ [u]\<rparr>) \<and>
      (\<forall>img_tag g. search_src img_tag = Some u \<longrightarrow> fst (replace_img lib ev img_tag g w) = img_tag)"
    if "cache w (local_filename lib u) = None \<and>
        (\<forall>body. http_get ev (length (requests w)) u \<noteq> HttpResponse 200 body)"
    using that download_image_fails [of w lib u ev] replace_img_fails [of w lib u ev] by blast
  have all: "fst (process_images_in_html lib ev html_content w) = html_content \<and>
      cache (snd (process_images_in_html lib ev html_content w)) = cache w"
    if "(\<forall>n v body. http_get ev n v \<noteq> HttpResponse 200 body) \<and>
        (\<forall>v \<in> set (img_urls html_content). cache w (local_filename lib v) = None)"
    using that process_all_fail [of ev html_content w lib] by blast
  have task: "(\<exists>h'. fst (scrape_single_article lib ev i w) =
         Inr (Success \<lparr>art_id = i, art_title = t, art_author = a, art_url = article_url i,
                        art_category = c, art_content_html = h'\<rparr>)) \<and>
      ((\<forall>n v body. http_get ev n v \<noteq> HttpResponse 200 body) \<and>
       (\<forall>v \<in> set (img_urls h). cache w (local_filename lib v) = None) \<longrightarrow>
         fst (scrape_single_article lib ev i w) =
           Inr (Success \<lparr>art_id = i, art_title = t, art_author = a, art_url = article_url i,
                          art_category = c, art_content_html = h\<rparr>))"
    if p: "article_exists (probe_fault ev i) (db w) i = Inr False"
      and f: "fst (fetch_fields ev i (article_url i) w) = Inr (t, a, c, h)"
      and e: "\<not> is_empty_article t i"
  proof -
    obtain w1 where ff: "fetch_fields ev i (article_url i) w = (Inr (t, a, c, h), w1)"
      using f by (cases "fetch_fields ev i (article_url i) w") simp
    have cw: "cache w1 = cache w"
      using fetch_fields_cache [of ev i "article_url i" w] ff by simp
    have s: "fst (scrape_single_article lib ev i w) =
           Inr (Success \<lparr>art_id = i, art_title = t, art_author = a, art_url = article_url i,
                          art_category = c,
                          art_content_html = fst (process_images_in_html lib ev h w1)\<rparr>)"
      by (rule scrape_success [OF p ff e])
    have "fst (process_images_in_html lib ev h w1) = h"
      if "(\<forall>n v body. http_get ev n v \<noteq> HttpResponse 200 body) \<and>
          (\<forall>v \<in> set (img_urls h). cache w (local_filename lib v) = None)"
      using that cw process_all_fail [of ev h w1 lib] by simp
    then show ?thesis
      using s by auto
  qed
  show ?thesis
    using one all task process_continues [of html_content _ _ lib ev w] by blast
qed

theorem image_failure_keeps_url_witness:
  \<open>(\<forall>n v body. http_get env_404 n v \<noteq> HttpResponse 200 body) \<and>
   cache w0 (local_filename lib0 (py ''http://a/b.png'')) = None \<and>
   download_image lib0 env_404 (py ''http://a/b.png'') w0 =
     (None, w0\<lparr>requests := requests w0 @ [py ''http://a/b.png'']\<rparr>) \<and>
   fst (process_images_in_html lib0 env_404 markup_repeated w0) = markup_repeated \<and>
   article_exists (probe_fault env_404 11) (db w0) 11 = Inr False \<and>
   \<not> is_empty_article (py ''A title'') 11 \<and>
   fst (scrape_single_article lib0 env_404 11 w0) =
     Inr (Success \<lparr>art_id = 11, art_title = py ''A title'', art_author = py ''bob'',
                    art_url = article_url 11, art_category = [],
                    art_content_html = py ''<p>hi</p><img src="http://a/b.png">''\<rparr>)\<close>
proof -
  have f: "\<forall>n v body. http_get env_404 n v \<noteq> HttpResponse 200 body"
    by (simp add: env_404_def)
  have f1: "\<forall>body. http_get env_404 (length (requests w0)) (py ''http://a/b.png'') \<noteq> HttpResponse 200 body"
    using f by blast
  have p: "article_exists (probe_fault env_404 11) (db w0) 11 = Inr False"
    by (simp add: article_exists_def env_404_def env0_def w0_def)
  have ff: \<open>fst (fetch_fields env_404 11 (article_url 11) w0) =
      Inr (py ''A title'', py ''bob'', [], py ''<p>hi</p><img src="http://a/b.png">'')\<close>
    by (simp add: fetch_fields_def select_path_def legacy_path_def extract_legacy_def env_404_def env0_def
        page_full_def ARTICLE_VERSION_THRESHOLD_def strip_def isspace_def py_def)
  have e: "\<not> is_empty_article (py ''A title'') 11"
    by (simp add: is_empty_article_def title_placeholder_def strip_def isspace_def py_def)
  have c: \<open>\<forall>v \<in> set (img_urls (py ''<p>hi</p><img src="http://a/b.png">'')).
             cache w0 (local_filename lib0 v) = None\<close>
    "\<forall>v \<in> set (img_urls markup_repeated). cache w0 (local_filename lib0 v) = None"
    "cache w0 (local_filename lib0 (py ''http://a/b.png'')) = None"
    by (simp_all add: w0_def)
  have one: "download_image lib0 env_404 (py ''http://a/b.png'') w0 =
     (None, w0\<lparr>requests := requests w0 @ [py ''http://a/b.png'']\<rparr>)"
    using image_failure_keeps_url [of w0 lib0 "py ''http://a/b.png''" env_404 "[]" 11 "[]" "[]" "[]" "[]"]
      c(3) f1 by blast
  have all: "fst (process_images_in_html lib0 env_404 markup_repeated w0) = markup_repeated"
    using image_failure_keeps_url [of w0 lib0 "[]" env_404 markup_repeated 11 "[]" "[]" "[]" "[]"]
      f c(2) by blast
  have task: \<open>fst (scrape_single_article lib0 env_404 11 w0) =
     Inr (Success \<lparr>art_id = 11, art_title = py ''A title'', art_author = py ''bob'',
                    art_url = article_url 11, art_category = [],
                    art_content_html = py ''<p>hi</p><img src="http://a/b.png">''\<rparr>)\<close>
    using image_failure_keeps_url [of w0 lib0 "[]" env_404 "[]" 11 "py ''A title''" "py ''bob''" "[]"
        \<open>py ''<p>hi</p><img src="http://a/b.png">''\<close>] f p ff e c(1)
    by blast
  show ?thesis
    using f c(3) one all p e task by blast
qed

section \<open>The image cache is addressed by the URL\<close>




section \<open>Facts about the table during a run\<close>

lemma str_nat_nonempty: "str_nat n \<noteq> []"
  by (subst str_nat.simps) simp

lemma str_nat_digits: "\<forall>c \<in> set (str_nat n). 48 \<le> c"
proof (induction n rule: str_nat.induct)
  case (1 n)
  show ?case
  proof (cases "n < 10")
    case True
    then show ?thesis by (subst str_nat.simps) simp
  next
    case False
    then show ?thesis using 1 by (subst str_nat.simps) simp
  qed
qed

lemma str_nat_inj: "str_nat m = str_nat n \<Longrightarrow> m = n"
proof (induction m arbitrary: n rule: str_nat.induct)
  case (1 m)
  show ?case
  proof (cases "m < 10")
    case m: True
    then have sm: "str_nat m = [48 + m]" by (subst str_nat.simps) simp
    show ?thesis
    proof (cases "n < 10")
      case True
      then have "str_nat n = [48 + n]" by (subst str_nat.simps) simp
      then show ?thesis using sm "1.prems" by simp
    next
      case False
      then have "str_nat n = str_nat (n div 10) @ [48 + n mod 10]"
        by (subst str_nat.simps) simp
      then show ?thesis using sm "1.prems" str_nat_nonempty [of "n div 10"] by simp
    qed
  next
    case m: False
    then have sm: "str_nat m = str_nat (m div 10) @ [48 + m mod 10]"
      by (subst str_nat.simps) simp
    show ?thesis
    proof (cases "n < 10")
      case True
      then have "str_nat n = [48 + n]" by (subst str_nat.simps) simp
      then show ?thesis using sm "1.prems" str_nat_nonempty [of "m div 10"] by simp
    next
      case False
      then have sn: "str_nat n = str_nat (n div 10) @ [48 + n mod 10]"
        by (subst str_nat.simps) simp
      have e: "str_nat (m div 10) = str_nat (n div 10)" "m mod 10 = n mod 10"
        using sm sn "1.prems" by simp_all
      have "m div 10 = n div 10"
        using "1.IH" [OF m e(1)] .
      then show ?thesis
        using e(2) by (metis div_mult_mod_eq)
    qed
  qed
qed

lemma str_int_inj: "str_int i = str_int j \<Longrightarrow> i = j"
proof -
  assume a: "str_int i = str_int j"
  have nd: "hd (str_nat n) \<noteq> 45" for n
  proof -
    have "hd (str_nat n) \<in> set (str_nat n)"
      using str_nat_nonempty by simp
    then have "48 \<le> hd (str_nat n)"
      using str_nat_digits by blast
    then show ?thesis by simp
  qed
  show "i = j"
  proof (cases "i < 0")
    case i: True
    show ?thesis
    proof (cases "j < 0")
      case True
      then have "str_nat (nat (- i)) = str_nat (nat (- j))"
        using a i by (simp add: str_int_def)
      then have "nat (- i) = nat (- j)" by (rule str_nat_inj)
      then show ?thesis using i True by simp
    next
      case False
      then have "45 # str_nat (nat (- i)) = str_nat (nat j)"
        using a i by (simp add: str_int_def)
      then have "hd (str_nat (nat j)) = 45" by (metis list.sel(1))
      then show ?thesis using nd by blast
    qed
  next
    case i: False
    show ?thesis
    proof (cases "j < 0")
      case True
      then have "str_nat (nat i) = 45 # str_nat (nat (- j))"
        using a i by (simp add: str_int_def)
      then have "hd (str_nat (nat i)) = 45" by (metis list.sel(1))
      then show ?thesis using nd by blast
    next
      case False
      then have "str_nat (nat i) = str_nat (nat j)"
        using a i by (simp add: str_int_def)
      then have "nat i = nat j" by (rule str_nat_inj)
      then show ?thesis using i False by simp
    qed
  qed
qed

lemma article_url_inj: "article_url i = article_url j \<Longrightarrow> i = j"
  by (simp add: article_url_def str_int_inj)

lemma own_urls_insert:
  assumes "own_urls tbl" and "art_url a = article_url (art_id a)"
  shows "own_urls (insert_or_replace t a tbl)"
    and "tbl k \<noteq> None \<Longrightarrow> insert_or_replace t a tbl k \<noteq> None"
    and "insert_or_replace t a tbl (art_id a) \<noteq> None"
proof -
  show "own_urls (insert_or_replace t a tbl)"
    using assms
    by (auto simp: own_urls_def insert_or_replace_def split: if_splits option.splits)
  show "insert_or_replace t a tbl (art_id a) \<noteq> None"
    by (simp add: insert_or_replace_def)
  show "insert_or_replace t a tbl k \<noteq> None" if h: "tbl k \<noteq> None"
  proof (cases "k = art_id a")
    case True
    then show ?thesis by (simp add: insert_or_replace_def)
  next
    case False
    obtain r where r: "tbl k = Some r" using h by blast
    then have "row_url r = article_url k"
      using assms(1) by (simp add: own_urls_def)
    then have "row_url r \<noteq> art_url a"
      using assms(2) False article_url_inj by metis
    then show ?thesis
      using r False by (simp add: insert_or_replace_def)
  qed
qed

lemma download_image_db: "db (snd (download_image lib ev u w)) = db w"
  by (simp add: download_image_def Let_def split: http_result.splits write_result.splits)

lemma replace_img_db: "db (snd (replace_img lib ev x g w)) = db w"
proof (cases "tag_src (x, Some g)")
  case None
  then show ?thesis by (simp add: replace_img_tag_src)
next
  case (Some u)
  then show ?thesis
    using download_image_db [of lib ev u w]
    by (cases "download_image lib ev u w") (auto simp: replace_img_tag_src split: option.splits)
qed

lemma rewrite_segments_db: "db (snd (rewrite_segments (replace_img lib ev) segs w)) = db w"
proof (induction segs arbitrary: w)
  case Nil
  show ?case by simp
next
  case (Cons seg r)
  obtain x og where seg: "seg = (x, og)" by (cases seg)
  show ?case
  proof (cases og)
    case None
    then show ?thesis
      using Cons.IH [of w] seg
      by (simp add: rewrite_segments_None del: rewrite_segments.simps)
  next
    case (Some g)
    then show ?thesis
      using Cons.IH [of "snd (replace_img lib ev x g w)"] seg replace_img_db [of lib ev x g w]
      by (simp add: rewrite_segments_Some del: rewrite_segments.simps)
  qed
qed

lemma process_images_db: "db (snd (process_images_in_html lib ev h w)) = db w"
  by (simp add: process_images_in_html_def re_sub_segments rewrite_segments_db)

lemma fetch_title:
  "fst (fetch_fields ev i u w) =
     (case fst (fetch_fields ev i u w) of Inl e \<Rightarrow> Inl e | Inr f \<Rightarrow> Inr f)"
  by (simp split: sum.splits)

lemma session_title_Inl:
  assumes "fst (fetch_fields ev i u w) = Inl e"
  shows "session_title ev i = None"
  using assms
  by (auto simp: fetch_fields_def select_path_def legacy_path_def modern_path_def
      session_title_def split: option.splits if_splits sum.splits)

lemma session_title_Inr:
  assumes "fst (fetch_fields ev i u w) = Inr (t, a, c, h)"
  shows "session_title ev i = Some t"
  using assms
  by (auto simp: fetch_fields_def select_path_def legacy_path_def modern_path_def
      extract_legacy_def extract_modern_def session_title_def Let_def
      split: option.splits if_splits sum.splits)

text \<open>What one task and the handling of its result do to the table.\<close>

lemma step_outcome:
  "(db w i \<noteq> None \<and> probe_fault ev i = NoFault \<longrightarrow>
      run_tasks lib ev [i] (c, w) = (c\<lparr>exists_count := exists_count c + 1\<rparr>, w)) \<and>
   (db w i = None \<or> probe_fault ev i \<noteq> NoFault \<longrightarrow>
      exists_count (fst (run_tasks lib ev [i] (c, w))) = exists_count c) \<and>
   (db w i \<noteq> None \<or> \<not> will_store ev i \<longrightarrow> db (snd (run_tasks lib ev [i] (c, w))) = db w) \<and>
   (db w i = None \<and> will_store ev i \<longrightarrow>
      (\<exists>a. art_id a = i \<and> art_url a = article_url i \<and>
         db (snd (run_tasks lib ev [i] (c, w))) = insert_or_replace (save_time ev i) a (db w)))"
proof (cases "probe_fault ev i = NoFault")
  case False
  then obtain e where "article_exists (probe_fault ev i) (db w) i = Inl e"
    by (cases "probe_fault ev i") (auto simp: article_exists_def)
  then have rt: "run_tasks lib ev [i] (c, w) = (c\<lparr>fail_count := fail_count c + 1\<rparr>, w)"
    by (simp add: scrape_single_article_def handle_result_def)
  show ?thesis
    unfolding rt using False by (simp add: will_store_def)
next
  case pf: True
  show ?thesis
  proof (cases "db w i")
    case (Some r)
    then have "scrape_single_article lib ev i w = (Inr (Exists i), w)"
      using pf by (simp add: scrape_single_article_def article_exists_def)
    then have rt: "run_tasks lib ev [i] (c, w) = (c\<lparr>exists_count := exists_count c + 1\<rparr>, w)"
      by (simp add: handle_result_def)
    show ?thesis
      unfolding rt using Some pf by simp
  next
    case None
    then have ae: "article_exists (probe_fault ev i) (db w) i = Inr False"
      using pf by (simp add: article_exists_def)
    obtain res w1 where ff: "fetch_fields ev i (article_url i) w = (res, w1)"
      by (cases "fetch_fields ev i (article_url i) w")
    have dw1: "db w1 = db w"
      using fetch_fields_db [of ev i "article_url i" w] ff by simp
    show ?thesis
    proof (cases res)
      case (Inl e)
      then have st: "session_title ev i = None"
        using session_title_Inl [of ev i "article_url i" w e] ff by simp
      have "scrape_single_article lib ev i w = (Inr (Error i (message e)), w1)"
        using ae ff Inl by (simp add: scrape_single_article_def)
      then have rt: "run_tasks lib ev [i] (c, w) = (c\<lparr>fail_count := fail_count c + 1\<rparr>, w1)"
        by (simp add: handle_result_def)
      show ?thesis
        unfolding rt using None st dw1 by (simp add: will_store_def)
    next
      case (Inr f)
      obtain t a cc h where f: "f = (t, a, cc, h)" by (cases f)
      have st: "session_title ev i = Some t"
        using session_title_Inr [of ev i "article_url i" w t a cc h] ff Inr f by simp
      show ?thesis
      proof (cases "is_empty_article t i")
        case True
        then have "scrape_single_article lib ev i w = (Inr (Skip i), w1)"
          using ae ff Inr f by (simp add: scrape_single_article_def)
        then have rt: "run_tasks lib ev [i] (c, w) = (c\<lparr>skip_count := skip_count c + 1\<rparr>, w1)"
          by (simp add: handle_result_def)
        show ?thesis
          unfolding rt using None st dw1 True by (simp add: will_store_def)
      next
        case False
        obtain h' w2 where pi: "process_images_in_html lib ev h w1 = (h', w2)"
          by (cases "process_images_in_html lib ev h w1")
        have dw2: "db w2 = db w"
          using process_images_db [of lib ev h w1] pi dw1 by simp
        let ?a = "\<lparr>art_id = i, art_title = t, art_author = a, art_url = article_url i,
                   art_category = cc, art_content_html = h'\<rparr>"
        have sc: "scrape_single_article lib ev i w = (Inr (Success ?a), w2)"
          using ae ff Inr f False pi by (simp add: scrape_single_article_def)
        show ?thesis
        proof (cases "save_fault ev i")
          case NoFault
          then have rt: "run_tasks lib ev [i] (c, w) =
              (c\<lparr>success_count := success_count c + 1\<rparr>,
               w2\<lparr>db := insert_or_replace (save_time ev i) ?a (db w2)\<rparr>)"
            using sc by (simp add: handle_result_def save_article_def)
          have ws: "will_store ev i"
            using pf NoFault st False by (simp add: will_store_def)
          have ex: "\<exists>b. art_id b = i \<and> art_url b = article_url i \<and>
                     insert_or_replace (save_time ev i) ?a (db w) =
                     insert_or_replace (save_time ev i) b (db w)"
            by (rule exI [of _ ?a]) simp
          show ?thesis
            unfolding rt using None dw2 ws ex by simp
        next
          case (ConnectRaises e)
          then have rt: "run_tasks lib ev [i] (c, w) = (c\<lparr>fail_count := fail_count c + 1\<rparr>, w2)"
            using sc by (simp add: handle_result_def save_article_def)
          show ?thesis
            unfolding rt using None dw2 ConnectRaises by (simp add: will_store_def)
        next
          case (ExecuteRaises e)
          then have rt: "run_tasks lib ev [i] (c, w) = (c\<lparr>fail_count := fail_count c + 1\<rparr>, w2)"
            using sc by (simp add: handle_result_def save_article_def)
          show ?thesis
            unfolding rt using None dw2 ExecuteRaises by (simp add: will_store_def)
        qed
      qed
    qed
  qed
qed

lemma run_tasks_Cons:
  "run_tasks lib ev (i # rest) cw = run_tasks lib ev rest (run_tasks lib ev [i] cw)"
  by (cases "scrape_single_article lib ev i (snd cw)") simp

lemma step_exists:
  assumes "db w i \<noteq> None" and "probe_fault ev i = NoFault"
  shows "run_tasks lib ev [i] (c, w) = (c\<lparr>exists_count := exists_count c + 1\<rparr>, w)"
  using assms step_outcome [of w i ev lib c] by (simp del: run_tasks.simps)

lemma step_not_exists:
  assumes "db w i = None \<or> probe_fault ev i \<noteq> NoFault"
  shows "exists_count (fst (run_tasks lib ev [i] (c, w))) = exists_count c"
  using assms step_outcome [of w i ev lib c] by (simp del: run_tasks.simps)

lemma step_same_db:
  assumes "db w i \<noteq> None \<or> \<not> will_store ev i"
  shows "db (snd (run_tasks lib ev [i] (c, w))) = db w"
  using assms step_outcome [of w i ev lib c] by (simp del: run_tasks.simps)

lemma step_store:
  assumes "db w i = None" and "will_store ev i"
  shows "\<exists>a. art_id a = i \<and> art_url a = article_url i \<and>
           db (snd (run_tasks lib ev [i] (c, w))) = insert_or_replace (save_time ev i) a (db w)"
  using assms step_outcome [of w i ev lib c] by (simp del: run_tasks.simps)

lemma run_first:
  assumes "own_urls (db w)"
  shows "own_urls (db (snd (run_tasks lib ev xs (c, w)))) \<and>
         (\<forall>k. db w k \<noteq> None \<longrightarrow> db (snd (run_tasks lib ev xs (c, w))) k \<noteq> None) \<and>
         (\<forall>i \<in> set xs. db (snd (run_tasks lib ev xs (c, w))) i \<noteq> None \<or> \<not> will_store ev i)"
  using assms
proof (induction xs arbitrary: c w)
  case Nil
  then show ?case by simp
next
  case (Cons i rest)
  obtain c1 w1 where s: "run_tasks lib ev [i] (c, w) = (c1, w1)"
    by (cases "run_tasks lib ev [i] (c, w)")
  have step: "own_urls (db w1) \<and> (\<forall>k. db w k \<noteq> None \<longrightarrow> db w1 k \<noteq> None) \<and>
              (db w1 i \<noteq> None \<or> \<not> will_store ev i)"
  proof (cases "db w i = None \<and> will_store ev i")
    case True
    then obtain a where a: "art_id a = i" "art_url a = article_url i"
      "db w1 = insert_or_replace (save_time ev i) a (db w)"
      using step_store [of w i ev lib c] s by auto
    have u: "art_url a = article_url (art_id a)"
      using a by simp
    have "own_urls (insert_or_replace (save_time ev i) a (db w))"
      and "\<forall>k. db w k \<noteq> None \<longrightarrow> insert_or_replace (save_time ev i) a (db w) k \<noteq> None"
      and "insert_or_replace (save_time ev i) a (db w) (art_id a) \<noteq> None"
      using own_urls_insert [OF Cons.prems u] by blast+
    then show ?thesis
      using a by simp
  next
    case False
    then have "db w1 = db w"
      using step_same_db [of w i ev lib c] s by auto
    then show ?thesis
      using Cons.prems False by auto
  qed
  let ?w' = "snd (run_tasks lib ev rest (c1, w1))"
  have ih: "own_urls (db ?w') \<and> (\<forall>k. db w1 k \<noteq> None \<longrightarrow> db ?w' k \<noteq> None) \<and>
            (\<forall>j \<in> set rest. db ?w' j \<noteq> None \<or> \<not> will_store ev j)"
    using Cons.IH [of w1 c1] step by blast
  have e: "run_tasks lib ev (i # rest) (c, w) = run_tasks lib ev rest (c1, w1)"
    using run_tasks_Cons [of lib ev i rest "(c, w)"] s by simp
  show ?case
    unfolding e using step ih by auto
qed

lemma run_second:
  assumes "\<forall>i \<in> set xs. db w i \<noteq> None \<or> \<not> will_store ev i"
  shows "db (snd (run_tasks lib ev xs (c, w))) = db w \<and>
         exists_count (fst (run_tasks lib ev xs (c, w))) =
           exists_count c + length (filter (\<lambda>i. db w i \<noteq> None \<and> probe_fault ev i = NoFault) xs)"
  using assms
proof (induction xs arbitrary: c w)
  case Nil
  then show ?case by simp
next
  case (Cons i rest)
  obtain c1 w1 where s: "run_tasks lib ev [i] (c, w) = (c1, w1)"
    by (cases "run_tasks lib ev [i] (c, w)")
  have d: "db w1 = db w"
    using step_same_db [of w i ev lib c] s Cons.prems by auto
  have x: "exists_count c1 =
           exists_count c + (if db w i \<noteq> None \<and> probe_fault ev i = NoFault then 1 else 0)"
  proof (cases "db w i \<noteq> None \<and> probe_fault ev i = NoFault")
    case True
    then have "run_tasks lib ev [i] (c, w) = (c\<lparr>exists_count := exists_count c + 1\<rparr>, w)"
      by (simp add: step_exists del: run_tasks.simps)
    then show ?thesis using s True by auto
  next
    case False
    then have "db w i = None \<or> probe_fault ev i \<noteq> NoFault"
      by simp
    then have "exists_count (fst (run_tasks lib ev [i] (c, w))) = exists_count c"
      by (rule step_not_exists)
    then show ?thesis using s False by auto
  qed
  have p: "\<forall>j \<in> set rest. db w1 j \<noteq> None \<or> \<not> will_store ev j"
    using Cons.prems d by simp
  have e: "run_tasks lib ev (i # rest) (c, w) = run_tasks lib ev rest (c1, w1)"
    using run_tasks_Cons [of lib ev i rest "(c, w)"] s by simp
  show ?case
    unfolding e using Cons.IH [OF p, of c1] d x by simp
qed

lemma not_exists_when_absent:
  assumes "db w i = None"
  shows "fst (scrape_single_article lib ev i w) \<noteq> Inr (Exists i)"
proof (cases "article_exists (probe_fault ev i) (db w) i")
  case (Inl e)
  then show ?thesis by (simp add: scrape_single_article_def)
next
  case (Inr b)
  then have "b = False"
    using assms by (auto simp: article_exists_def split: db_fault.splits)
  then show ?thesis
    using Inr by (auto simp: scrape_single_article_def split: prod.splits sum.splits)
qed

lemma two_runs:
  assumes "own_urls (db w)" and "0 < n"
  shows "\<exists>c1 w1 c2 w2.
           main lib ev start_id end_id n w = Inr (c1, w1) \<and>
           run_twice lib ev ev start_id end_id n w = Inr (c1, c2, w2) \<and>
           db w2 = db w1 \<and>
           exists_count c2 =
             length (filter (\<lambda>i. db w1 i \<noteq> None \<and> probe_fault ev i = NoFault)
                       (completion_order ev (submitted start_id end_id)))"
proof -
  let ?xs = "completion_order ev (submitted start_id end_id)"
  obtain c1 w1 where r1: "run_tasks lib ev ?xs (zero_counters, w) = (c1, w1)"
    by (cases "run_tasks lib ev ?xs (zero_counters, w)")
  obtain c2 w2 where r2: "run_tasks lib ev ?xs (zero_counters, w1) = (c2, w2)"
    by (cases "run_tasks lib ev ?xs (zero_counters, w1)")
  have settled: "\<forall>i \<in> set ?xs. db w1 i \<noteq> None \<or> \<not> will_store ev i"
    using run_first [OF assms(1), of lib ev ?xs zero_counters] r1 by simp
  have s2: "db w2 = db w1 \<and> exists_count c2 =
      exists_count zero_counters +
      length (filter (\<lambda>i. db w1 i \<noteq> None \<and> probe_fault ev i = NoFault) ?xs)"
    using run_second [OF settled, of lib zero_counters] r2 by simp
  have m1: "main lib ev start_id end_id n w = Inr (c1, w1)"
    using assms(2) r1 by (simp add: main_def)
  have m2: "main lib ev start_id end_id n w1 = Inr (c2, w2)"
    using assms(2) r2 by (simp add: main_def)
  have rt: "run_twice lib ev ev start_id end_id n w = Inr (c1, c2, w2)"
    using m1 m2 by (simp add: run_twice_def)
  show ?thesis
    using m1 rt s2 by (simp add: zero_counters_def)
qed

section \<open>A second run\<close>

text \<open>
  Claim C3, as stated, fails: an identifier whose page has no title is skipped, not
  stored, and so skipped again, not classified as existing, by a second run over the
  same range; the second run renders its page once more.
\<close>

theorem second_run_counterexample:
  "run_twice lib0 env0 env0 12 12 1 w0 =
     Inr (\<lparr>success_count = 0, skip_count = 1, fail_count = 0, exists_count = 0\<rparr>,
          \<lparr>success_count = 0, skip_count = 1, fail_count = 0, exists_count = 0\<rparr>,
          w0\<lparr>navigations := [(article_url 12, 30000), (article_url 12, 30000)]\<rparr>)"
  by (simp add: run_twice_def main_def submitted_def env0_def w0_def zero_counters_def
      scrape_single_article_def article_exists_def fetch_fields_def select_path_def legacy_path_def
      extract_legacy_def ARTICLE_VERSION_THRESHOLD_def page_blank_def
      is_empty_article_def handle_result_def upto.simps)

text \<open>
  Claim C3, amended. Two runs over the same range, against an outside world that answers
  the second run as it answered the first and a table whose rows carry their own URL,
  end with the same store: the second run writes nothing, so the store after it is
  identical to the store after the first, \<^verbatim>\<open>created_at\<close> included. On the second run
  exactly the identifiers that are in the store, and whose probe answers, classify as
  \<open>Exists\<close>: for such an identifier \<open>article_exists\<close> is true and the task returns at
  once, with no navigation, no request and no change of the state; an identifier that
  is absent never classifies as \<open>Exists\<close>. Results \<open>Skip\<close> and \<open>Error\<close> are counted
  without a write, and a successful write puts the identifier into the store; so a run
  over a range whose identifiers are all stored counts all of them as existing.
\<close>

theorem second_run_keeps_store:
  "(own_urls (db w) \<and> 0 < n \<longrightarrow>
      (\<exists>c1 w1 c2 w2.
         main lib ev start_id end_id n w = Inr (c1, w1) \<and>
         run_twice lib ev ev start_id end_id n w = Inr (c1, c2, w2) \<and>
         db w2 = db w1 \<and>
         exists_count c2 =
           length (filter (\<lambda>i. db w1 i \<noteq> None \<and> probe_fault ev i = NoFault)
                     (completion_order ev (submitted start_id end_id))))) \<and>
   (db w i \<noteq> None \<and> probe_fault ev i = NoFault \<longrightarrow>
      article_exists (probe_fault ev i) (db w) i = Inr True \<and>
      scrape_single_article lib ev i w = (Inr (Exists i), w)) \<and>
   (db w i = None \<longrightarrow> fst (scrape_single_article lib ev i w) \<noteq> Inr (Exists i)) \<and>
   ((\<forall>i. start_id \<le> i \<and> i \<le> end_id \<longrightarrow> db w i \<noteq> None \<and> probe_fault ev i = NoFault) \<and>
    (\<forall>xs. mset (completion_order ev xs) = mset xs) \<and> 0 < n \<longrightarrow>
      main lib ev start_id end_id n w =
        Inr (zero_counters\<lparr>exists_count := nat (end_id - start_id + 1)\<rparr>, w)) \<and>
   (\<forall>j c. handle_result ev i (Inr (Skip j)) (c, w) = (c\<lparr>skip_count := skip_count c + 1\<rparr>, w)) \<and>
   (\<forall>j msg c. handle_result ev i (Inr (Error j msg)) (c, w) =
      (c\<lparr>fail_count := fail_count c + 1\<rparr>, w)) \<and>
   (\<forall>a c. save_fault ev i = NoFault \<longrightarrow>
      handle_result ev i (Inr (Success a)) (c, w) =
        (c\<lparr>success_count := success_count c + 1\<rparr>, w\<lparr>db := insert_or_replace (save_time ev i) a (db w)\<rparr>) \<and>
      insert_or_replace (save_time ev i) a (db w) (art_id a) \<noteq> None)"
proof -
  have t: "\<exists>c1 w1 c2 w2.
         main lib ev start_id end_id n w = Inr (c1, w1) \<and>
         run_twice lib ev ev start_id end_id n w = Inr (c1, c2, w2) \<and>
         db w2 = db w1 \<and>
         exists_count c2 =
           length (filter (\<lambda>i. db w1 i \<noteq> None \<and> probe_fault ev i = NoFault)
                     (completion_order ev (submitted start_id end_id)))"
    if "own_urls (db w) \<and> 0 < n"
    using that two_runs [of w n lib ev start_id end_id] by blast
  have a: "article_exists (probe_fault ev i) (db w) i = Inr True \<and>
      scrape_single_article lib ev i w = (Inr (Exists i), w)"
    if "db w i \<noteq> None \<and> probe_fault ev i = NoFault"
    using that exists_task [of w i ev lib] by (simp add: article_exists_def)
  have na: "fst (scrape_single_article lib ev i w) \<noteq> Inr (Exists i)" if "db w i = None"
    using that by (rule not_exists_when_absent)
  have b: "main lib ev start_id end_id n w =
        Inr (zero_counters\<lparr>exists_count := nat (end_id - start_id + 1)\<rparr>, w)"
    if all: "\<forall>i. start_id \<le> i \<and> i \<le> end_id \<longrightarrow> db w i \<noteq> None \<and> probe_fault ev i = NoFault"
      and perm: "\<forall>xs. mset (completion_order ev xs) = mset xs"
      and n: "0 < n"
  proof -
    let ?xs = "completion_order ev (submitted start_id end_id)"
    have m: "mset ?xs = mset [start_id..end_id]"
      using perm by (simp add: submitted_def)
    have "set ?xs = set [start_id..end_id]"
      using mset_eq_setD [OF m] .
    then have ex: "\<forall>i \<in> set ?xs. db w i \<noteq> None \<and> probe_fault ev i = NoFault"
      using all by simp
    have len: "length ?xs = nat (end_id - start_id + 1)"
      using mset_eq_length [OF m] by simp
    show ?thesis
      using n run_tasks_all_exist [OF ex, of lib zero_counters] len
      by (simp add: main_def zero_counters_def)
  qed
  have sk: "\<forall>j c. handle_result ev i (Inr (Skip j)) (c, w) = (c\<lparr>skip_count := skip_count c + 1\<rparr>, w)"
    and er: "\<forall>j msg c. handle_result ev i (Inr (Error j msg)) (c, w) =
      (c\<lparr>fail_count := fail_count c + 1\<rparr>, w)"
    by (simp_all add: handle_result_def)
  have c: "handle_result ev i (Inr (Success a)) (c, w) =
        (c\<lparr>success_count := success_count c + 1\<rparr>, w\<lparr>db := insert_or_replace (save_time ev i) a (db w)\<rparr>) \<and>
      insert_or_replace (save_time ev i) a (db w) (art_id a) \<noteq> None"
    if "save_fault ev i = NoFault" for a c
    using that by (simp add: handle_result_def save_article_def insert_or_replace_def)
  show ?thesis
    using t a na b sk er c by blast
qed

lemma sample_two_runs:
  "map_sum (\<lambda>e. e) (\<lambda>r. (fst r, fst (snd r))) (run_twice lib0 env0 env0 10 12 3 w0) =
     Inr (\<lparr>success_count = 1, skip_count = 1, fail_count = 0, exists_count = 1\<rparr>,
          \<lparr>success_count = 0, skip_count = 1, fail_count = 0, exists_count = 2\<rparr>)"
  by (simp add: run_twice_def main_def submitted_def env0_def w0_def lib0_def zero_counters_def
      scrape_single_article_def article_exists_def fetch_fields_def select_path_def legacy_path_def
      extract_legacy_def ARTICLE_VERSION_THRESHOLD_def page_full_def page_blank_def
      is_empty_article_def title_placeholder_def strip_def isspace_def py_def
      str_int_def str_nat.simps handle_result_def save_article_def
      process_images_in_html_def match_img_def replace_img_def match_src_def is_quote_def
      download_image_def local_filename_def local_url_def py_replace_def upto.simps
      insert_or_replace_def row10_def article_url_def)

theorem second_run_keeps_store_witness:
  "own_urls (db w0) \<and> (0 :: int) < 3 \<and>
   (\<exists>c1 w1 c2 w2.
      main lib0 env0 10 12 3 w0 = Inr (c1, w1) \<and>
      run_twice lib0 env0 env0 10 12 3 w0 = Inr (c1, c2, w2) \<and> db w2 = db w1 \<and>
      exists_count c2 =
        length (filter (\<lambda>i. db w1 i \<noteq> None \<and> probe_fault env0 i = NoFault)
                  (completion_order env0 (submitted 10 12)))) \<and>
   map_sum (\<lambda>e. e) (\<lambda>r. (fst r, fst (snd r))) (run_twice lib0 env0 env0 10 12 3 w0) =
     Inr (\<lparr>success_count = 1, skip_count = 1, fail_count = 0, exists_count = 1\<rparr>,
          \<lparr>success_count = 0, skip_count = 1, fail_count = 0, exists_count = 2\<rparr>) \<and>
   db w0 10 \<noteq> None \<and> probe_fault env0 10 = NoFault \<and>
   scrape_single_article lib0 env0 10 w0 = (Inr (Exists 10), w0) \<and>
   db w0 12 = None \<and> fst (scrape_single_article lib0 env0 12 w0) \<noteq> Inr (Exists 12) \<and>
   (\<forall>xs. mset (completion_order env0 xs) = mset xs) \<and>
   main lib0 env0 10 10 1 w0 = Inr (zero_counters\<lparr>exists_count := 1\<rparr>, w0) \<and>
   save_fault env0 11 = NoFault \<and>
   insert_or_replace (save_time env0 11) article11 (db w0) (art_id article11) \<noteq> None"
proof -
  have o: "own_urls (db w0)"
    by (simp add: own_urls_def w0_def row10_def)
  have n: "(0 :: int) < 3" "(0 :: int) < 1"
    by simp_all
  have h: "db w0 10 \<noteq> None" "probe_fault env0 10 = NoFault" "db w0 12 = None"
    "\<forall>xs. mset (completion_order env0 xs) = mset xs" "save_fault env0 11 = NoFault"
    by (simp_all add: w0_def env0_def)
  have r: "\<forall>i. (10 :: int) \<le> i \<and> i \<le> 10 \<longrightarrow> db w0 i \<noteq> None \<and> probe_fault env0 i = NoFault"
    using h by auto
  have two: "\<exists>c1 w1 c2 w2.
      main lib0 env0 10 12 3 w0 = Inr (c1, w1) \<and>
      run_twice lib0 env0 env0 10 12 3 w0 = Inr (c1, c2, w2) \<and> db w2 = db w1 \<and>
      exists_count c2 =
        length (filter (\<lambda>i. db w1 i \<noteq> None \<and> probe_fault env0 i = NoFault)
                  (completion_order env0 (submitted 10 12)))"
    using second_run_keeps_store [of w0 3 lib0 env0 10 12 10] o n(1) by blast
  have e10: "scrape_single_article lib0 env0 10 w0 = (Inr (Exists 10), w0)"
    using second_run_keeps_store [of w0 3 lib0 env0 10 12 10] h(1,2) by blast
  have n12: "fst (scrape_single_article lib0 env0 12 w0) \<noteq> Inr (Exists 12)"
    using second_run_keeps_store [of w0 3 lib0 env0 10 12 12] h(3) by blast
  have m: "main lib0 env0 10 10 1 w0 = Inr (zero_counters\<lparr>exists_count := nat (10 - 10 + 1)\<rparr>, w0)"
    using second_run_keeps_store [of w0 1 lib0 env0 10 10 10] r h(4) n(2) by blast
  have m1: "main lib0 env0 10 10 1 w0 = Inr (zero_counters\<lparr>exists_count := 1\<rparr>, w0)"
    using m by simp
  have s: "insert_or_replace (save_time env0 11) article11 (db w0) (art_id article11) \<noteq> None"
    using second_run_keeps_store [of w0 3 lib0 env0 10 12 11] h(5) by blast
  show ?thesis
    using o n(1) two sample_two_runs h e10 n12 m1 s by blast
qed

end
